theory Spec2Isabelle
  imports Complex_Main "HOL-Library.AList" "HOL-Library.Log_Nat"
begin

text \<open>
  A shallow embedding of the two stateful pages of the learning portal's front end: the
  chat handler of \<^verbatim>\<open>LearningPage\<close> and the quiz state machine of \<^verbatim>\<open>QuizPage\<close>. A page is
  the record of its \<^verbatim>\<open>useState\<close> cells; a handler is a function from page to page. An
  \<^verbatim>\<open>await\<close> splits a handler into the part that runs at the click and the part that
  runs when the request settles; the outcome of the request is a parameter, and for the
  chat so is the time the service takes. Clock readings (\<^verbatim>\<open>Date.now()\<close>) are parameters in
  milliseconds. The views are the guards under which each control is rendered and
  enabled. A JavaScript string is held as the bytes of its UTF-8 encoding in a
  \<^typ>\<open>string\<close>; the literals of the source outside ASCII are written byte by byte.
\<close>

section \<open>JavaScript values used by the two pages\<close>

text \<open>
  A promise that has settled: the awaited call either returned a value or threw.
  The thrown value is read through \<^verbatim>\<open>err?.name\<close> and \<^verbatim>\<open>err?.message\<close> only.
\<close>

record js_error =
  err_name :: string
  err_message :: "string option"

datatype 'a outcome = Resolved 'a | Rejected js_error

text \<open>\<^verbatim>\<open>String.prototype.includes\<close>: the argument occurs as a contiguous piece.\<close>

fun starts_with :: "string \<Rightarrow> string \<Rightarrow> bool" where
  "starts_with s [] = True"
| "starts_with [] (p # ps) = False"
| "starts_with (c # cs) (p # ps) = (c = p \<and> starts_with cs ps)"

fun includes_str :: "string \<Rightarrow> string \<Rightarrow> bool" where
  "includes_str [] sub = (sub = [])"
| "includes_str (c # cs) sub = (starts_with (c # cs) sub \<or> includes_str cs sub)"

text \<open>\<^verbatim>\<open>err?.message?.includes('timeout')\<close>: undefined (falsy) when there is no message.\<close>

definition message_includes :: "js_error \<Rightarrow> string \<Rightarrow> bool" where
  "message_includes err sub =
     (case err_message err of None \<Rightarrow> False | Some m \<Rightarrow> includes_str m sub)"

text \<open>
  \<^verbatim>\<open>String.prototype.trim\<close> removes white space and line terminators from both ends:
  U+0009 to U+000D, U+0020, U+00A0, U+1680, U+2000 to U+200A, U+2028, U+2029, U+202F,
  U+205F, U+3000 and U+FEFF. \<open>white_space\<close> lists their UTF-8 encodings.
\<close>

definition white_space :: "string list" where
  "white_space =
     [[CHR 0x09], [CHR 0x0A], [CHR 0x0B], [CHR 0x0C], [CHR 0x0D], [CHR 0x20],
      [CHR 0xC2, CHR 0xA0],
      [CHR 0xE1, CHR 0x9A, CHR 0x80],
      [CHR 0xE2, CHR 0x80, CHR 0x80], [CHR 0xE2, CHR 0x80, CHR 0x81],
      [CHR 0xE2, CHR 0x80, CHR 0x82], [CHR 0xE2, CHR 0x80, CHR 0x83],
      [CHR 0xE2, CHR 0x80, CHR 0x84], [CHR 0xE2, CHR 0x80, CHR 0x85],
      [CHR 0xE2, CHR 0x80, CHR 0x86], [CHR 0xE2, CHR 0x80, CHR 0x87],
      [CHR 0xE2, CHR 0x80, CHR 0x88], [CHR 0xE2, CHR 0x80, CHR 0x89],
      [CHR 0xE2, CHR 0x80, CHR 0x8A],
      [CHR 0xE2, CHR 0x80, CHR 0xA8], [CHR 0xE2, CHR 0x80, CHR 0xA9],
      [CHR 0xE2, CHR 0x80, CHR 0xAF],
      [CHR 0xE2, CHR 0x81, CHR 0x9F],
      [CHR 0xE3, CHR 0x80, CHR 0x80],
      [CHR 0xEF, CHR 0xBB, CHR 0xBF]]"

text \<open>
  Removing every leading occurrence of one of the given byte sequences; the end of a
  string is trimmed on its reversal, with the sequences reversed. In a UTF-8 encoding a
  sequence of \<open>white_space\<close> at either end is the encoding of that white-space
  character.
\<close>

function strip_lead :: "string list \<Rightarrow> string \<Rightarrow> string" where
  "strip_lead ws s =
     (case find (\<lambda>w. w \<noteq> [] \<and> starts_with s w) ws of
        None \<Rightarrow> s
      | Some w \<Rightarrow> strip_lead ws (drop (length w) s))"
  by pat_completeness auto
termination
proof (relation "measure (\<lambda>(ws, s). length s)")
  show "wf (measure (\<lambda>(ws, s). length s))" by simp
next
  fix ws :: "string list" and s w :: string
  assume "find (\<lambda>w. w \<noteq> [] \<and> starts_with s w) ws = Some w"
  then have w: "w \<noteq> []" "starts_with s w"
    by (auto simp: find_Some_iff)
  from w(2) have "length w \<le> length s"
    by (induction s w rule: starts_with.induct) simp_all
  with w(1) show "((ws, drop (length w) s), (ws, s)) \<in> measure (\<lambda>(ws, s). length s)"
    by (cases w) auto
qed

declare strip_lead.simps [simp del]

definition trim :: "string \<Rightarrow> string" where
  "trim s = rev (strip_lead (map rev white_space) (rev (strip_lead white_space s)))"

text \<open>Truthiness of a string that may be undefined: only a non-empty string is truthy.\<close>

definition truthy :: "string option \<Rightarrow> bool" where
  "truthy v = (case v of None \<Rightarrow> False | Some t \<Rightarrow> t \<noteq> [])"

text \<open>\<^verbatim>\<open>Number.prototype.toString\<close> on a non-negative integer (as \<^verbatim>\<open>Date.now()\<close> is).\<close>

fun toString :: "nat \<Rightarrow> string" where
  "toString n =
     (if n < 10 then [''0123456789'' ! n]
      else toString (n div 10) @ [''0123456789'' ! (n mod 10)])"

declare toString.simps [simp del]

section \<open>The transport: \<^verbatim>\<open>services/api\<close> and \<^verbatim>\<open>services/chat\<close>\<close>

text \<open>
  \<^verbatim>\<open>axios.create({ baseURL, timeout: 120000, ... })\<close>. How the remote service behaves for
  one call is a parameter: the time it takes and what it finally answers. The instance
  rejects on its own once its timeout has run out (the library's error message is
  \<^verbatim>\<open>timeout of 120000ms exceeded\<close>); otherwise the caller sees the service's outcome
  after the service's latency. The result is the time the caller waited and the outcome.
\<close>

definition api_timeout :: nat where
  "api_timeout = 120000"

record 'a backend =
  latency :: nat
  reply :: "'a outcome"

definition api_post :: "'a backend \<Rightarrow> nat \<times> 'a outcome" where
  "api_post b =
     (if latency b > api_timeout
      then (api_timeout,
            Rejected \<lparr>err_name = ''AxiosError'',
                      err_message = Some ''timeout of 120000ms exceeded''\<rparr>)
      else (latency b, reply b))"

record ChatResponse =
  answer :: string
  cr_sources :: "string list"
  student_xp :: int
  cr_difficulty :: string

text \<open>
  \<^verbatim>\<open>chatService.ask(studentId, question, subject, chapterId)\<close> posts the four values to
  \<^verbatim>\<open>/ask\<close> and returns the body. It takes no abort signal and hands none to the
  transport.
\<close>

definition ask :: "string \<Rightarrow> string \<Rightarrow> string \<Rightarrow> string \<Rightarrow> ChatResponse backend
    \<Rightarrow> nat \<times> ChatResponse outcome" where
  "ask studentId question subj chapter b = api_post b"

section \<open>The learning page (chat)\<close>

datatype Role = User | Assistant

record Message =
  msg_id :: string
  role :: Role
  content :: string
  timestamp :: nat
  difficulty :: "string option"
  sources :: "string list option"

record Student =
  st_id :: string
  st_name :: string

text \<open>
  The state of \<^verbatim>\<open>LearningPage\<close>: the student of the auth store, the two route
  parameters, and the \<^verbatim>\<open>useState\<close> cells the send handler touches.
\<close>

record LearningPage =
  lp_student :: "Student option"
  subjectId :: "string option"
  lp_chapterId :: "string option"
  messages :: "Message list"
  input :: string
  isLoading :: bool
  lp_error :: "string option"

definition timeout_text :: string where
  "timeout_text =
     [CHR 0xE2, CHR 0x8F, CHR 0xB1, CHR 0xEF, CHR 0xB8, CHR 0x8F]
     @ '' The AI is taking too long to respond. Please try a simpler question.''"

definition connection_text :: string where
  "connection_text = ''I'' @ [CHR 0x27] @ ''m having trouble connecting. Please try again.''"

text \<open>
  The guard of line 55: \<^verbatim>\<open>!input.trim() || !student || !subjectId || !chapterId || isLoading\<close>.
\<close>

definition send_blocked :: "LearningPage \<Rightarrow> bool" where
  "send_blocked s \<longleftrightarrow>
     trim (input s) = [] \<or> lp_student s = None \<or> \<not> truthy (subjectId s)
     \<or> \<not> truthy (lp_chapterId s) \<or> isLoading s"

text \<open>
  The \<^verbatim>\<open>catch\<close> block (lines 90 to 103): the thrown value is classified, the banner is
  set and the substitute assistant message is appended; \<open>t\<close> is the clock at that moment.
\<close>

definition isTimeout :: "js_error \<Rightarrow> bool" where
  "isTimeout err \<longleftrightarrow> err_name err = ''AbortError'' \<or> message_includes err ''timeout''"

definition on_ask_rejected :: "nat \<Rightarrow> js_error \<Rightarrow> LearningPage \<Rightarrow> LearningPage" where
  "on_ask_rejected t err s =
     (let errorMsg = (if isTimeout err then timeout_text else connection_text)
      in s\<lparr>lp_error := Some (if isTimeout err
                              then ''Request timed out. The AI model may be busy.''
                              else ''Connection error.''),
            messages := messages s @
              [\<lparr>msg_id = toString t, role = Assistant, content = errorMsg, timestamp = t,
                difficulty = None, sources = None\<rparr>]\<rparr>)"

text \<open>Lines 82 to 89: the assistant message built from the response body.\<close>

definition on_ask_resolved :: "nat \<Rightarrow> ChatResponse \<Rightarrow> LearningPage \<Rightarrow> LearningPage" where
  "on_ask_resolved t response s =
     s\<lparr>messages := messages s @
         [\<lparr>msg_id = toString (t + 1), role = Assistant, content = answer response,
           timestamp = t, difficulty = Some (cr_difficulty response),
           sources = Some (cr_sources response)\<rparr>]\<rparr>"

text \<open>
  Lines 70, 71 and 80: \<^verbatim>\<open>setTimeout(() => controller.abort(), 15000)\<close>, with
  \<^verbatim>\<open>clearTimeout\<close> as the statement after the \<^verbatim>\<open>await\<close>, which runs only when the
  awaited call returned. \<open>abort_fired\<close> says whether \<^verbatim>\<open>controller.abort()\<close> runs, for
  a call that settled after \<open>waited\<close> milliseconds.
\<close>

definition chat_deadline :: nat where
  "chat_deadline = 15000"

definition abort_fired :: "nat \<Rightarrow> 'a outcome \<Rightarrow> bool" where
  "abort_fired waited settled =
     (case settled of Resolved r \<Rightarrow> chat_deadline < waited | Rejected err \<Rightarrow> True)"

text \<open>
  \<^verbatim>\<open>handleSendMessage\<close> run to completion; \<open>now\<close> is the clock when the form is submitted
  and \<open>b\<close> the behaviour of the service for this call. Inside \<^verbatim>\<open>try\<close> the handler creates
  an \<^verbatim>\<open>AbortController\<close> and a 15000 ms timer that calls \<^verbatim>\<open>controller.abort()\<close>; neither
  the controller nor its signal is passed to \<^verbatim>\<open>chatService.ask\<close> or read afterwards, so
  the awaited outcome is that of \<open>ask\<close> alone. \<^verbatim>\<open>finally\<close> clears the loading flag.
\<close>

definition handleSendMessage :: "LearningPage \<Rightarrow> nat \<Rightarrow> ChatResponse backend \<Rightarrow> LearningPage" where
  "handleSendMessage s now b =
     (if send_blocked s then s
      else
        let userMsg = \<lparr>msg_id = toString now, role = User, content = input s,
                       timestamp = now, difficulty = None, sources = None\<rparr>;
            s1 = s\<lparr>messages := messages s @ [userMsg], input := [], isLoading := True,
                   lp_error := None\<rparr>;
            (waited, settled) =
              ask (case lp_student s of Some st \<Rightarrow> st_id st | None \<Rightarrow> [])
                  (content userMsg)
                  (case subjectId s of Some x \<Rightarrow> x | None \<Rightarrow> [])
                  (case lp_chapterId s of Some x \<Rightarrow> x | None \<Rightarrow> []) b;
            s2 = (case settled of
                    Resolved response \<Rightarrow> on_ask_resolved (now + waited) response s1
                  | Rejected err \<Rightarrow> on_ask_rejected (now + waited) err s1)
        in s2\<lparr>isLoading := False\<rparr>)"

subsection \<open>The send in its two parts, and the form\<close>

text \<open>
  The handler up to the \<^verbatim>\<open>await\<close> (lines 54 to 67), and from the settling of
  \<^verbatim>\<open>chatService.ask\<close> onwards (lines 80 to 107), at clock \<open>t\<close>.
\<close>

definition handleSendMessage_begin :: "nat \<Rightarrow> LearningPage \<Rightarrow> LearningPage" where
  "handleSendMessage_begin now s =
     (if send_blocked s then s
      else s\<lparr>messages := messages s @
                 [\<lparr>msg_id = toString now, role = User, content = input s, timestamp = now,
                   difficulty = None, sources = None\<rparr>],
             input := [], isLoading := True, lp_error := None\<rparr>)"

definition handleSendMessage_settle :: "nat \<Rightarrow> ChatResponse outcome \<Rightarrow> LearningPage \<Rightarrow> LearningPage" where
  "handleSendMessage_settle t settled s =
     (case settled of
        Resolved response \<Rightarrow> on_ask_resolved t response s
      | Rejected err \<Rightarrow> on_ask_rejected t err s)
     \<lparr>isLoading := False\<rparr>"

definition quickQuestions :: "string list" where
  "quickQuestions = [''Explain the key concepts'', ''Give me an example'',
     ''What are the applications?'']"

text \<open>
  What can happen to the learning page. The text input is \<^verbatim>\<open>disabled={isLoading}\<close>; a
  quick-question button is rendered while \<^verbatim>\<open>messages.length <= 1\<close> and sets the input; the
  form is submitted from the text input or by the submit button, which is disabled by
  \<^verbatim>\<open>!input.trim() || isLoading\<close>, so it cannot be submitted while \<^verbatim>\<open>isLoading\<close> (a
  submission with blank input is let through here and stopped by the handler's guard);
  the request settles while it is awaited, which is while \<^verbatim>\<open>isLoading\<close> is set.
\<close>

datatype chat_event =
    ChangeInput string
  | ClickQuick string
  | SubmitForm
  | AskSettled "ChatResponse outcome"

definition chat_fire :: "nat \<Rightarrow> chat_event \<Rightarrow> LearningPage \<Rightarrow> LearningPage option" where
  "chat_fire now e s =
     (case e of
        ChangeInput text \<Rightarrow> (if isLoading s then None else Some (s\<lparr>input := text\<rparr>))
      | ClickQuick q \<Rightarrow>
          (if length (messages s) \<le> 1 \<and> q \<in> set quickQuestions
           then Some (s\<lparr>input := q\<rparr>) else None)
      | SubmitForm \<Rightarrow> (if isLoading s then None else Some (handleSendMessage_begin now s))
      | AskSettled settled \<Rightarrow>
          (if isLoading s then Some (handleSendMessage_settle now settled s) else None))"

text \<open>The assistant messages of a history, in order.\<close>

definition assistant_messages :: "Message list \<Rightarrow> Message list" where
  "assistant_messages ms = filter (\<lambda>m. role m = Assistant) ms"


section \<open>The quiz page\<close>

datatype Step = Setup | Quiz | Result

record QuizQuestion =
  q_id :: int
  question :: string
  options :: "string list"

record QuizData =
  quiz_id :: string
  qd_difficulty :: string
  questions :: "QuizQuestion list"

text \<open>
  \<^verbatim>\<open>score\<close> and \<^verbatim>\<open>total\<close> are counts of questions; the two server-computed scalars,
  which the modelled code only displays, are held as fractions.
\<close>

record QuizResult =
  score :: int
  total_n :: int
  xp_gained :: int
  res_difficulty :: string
  confidence_score :: rat
  learning_momentum :: rat
  weak_topics :: "string list"

text \<open>The bodies of the two posts, \<^verbatim>\<open>/quiz/generate\<close> and \<^verbatim>\<open>/quiz/submit\<close>.\<close>

record GenerateRequest =
  g_student_id :: "string option"
  g_subject :: string
  g_chapter_id :: string
  num_questions :: nat

record SubmitRequest =
  s_student_id :: "string option"
  s_quiz_id :: string
  s_answers :: "(int \<times> string) list"
  time_taken :: rat

datatype request = Generate GenerateRequest | Submit SubmitRequest

text \<open>
  The state of \<^verbatim>\<open>QuizPage\<close>: the student of the auth store and the \<^verbatim>\<open>useState\<close> cells.
  \<^verbatim>\<open>answers\<close>, a \<^verbatim>\<open>Record<number, string>\<close>, is an association list read with
  \<^const>\<open>map_of\<close> and written with \<^const>\<open>AList.update\<close>; its length is the number of keys.
  \<open>inflight\<close> is not a cell of the component: it is the request whose promise the
  component is awaiting, if any.
\<close>

record QuizPage =
  student :: "Student option"
  step :: Step
  subject :: string
  chapterId :: string
  quiz :: "QuizData option"
  answers :: "(int \<times> string) list"
  currentQ :: int
  result :: "QuizResult option"
  loading :: bool
  error :: "string option"
  startTime :: int
  inflight :: "request option"

text \<open>
  The first render. \<open>subject\<close> and \<open>chapterId\<close> come from the query string
  (\<^verbatim>\<open>searchParams.get(..) || ''\<close>) and \<open>startTime\<close> is \<^verbatim>\<open>useState(Date.now())\<close>: the clock at
  this moment, kept in a cell that has no setter.
\<close>

definition mount :: "Student option \<Rightarrow> string option \<Rightarrow> string option \<Rightarrow> int \<Rightarrow> QuizPage" where
  "mount st subject_param chapter_param now =
     \<lparr>student = st, step = Setup,
      subject = (case subject_param of Some x \<Rightarrow> x | None \<Rightarrow> []),
      chapterId = (case chapter_param of Some x \<Rightarrow> x | None \<Rightarrow> []),
      quiz = None, answers = [], currentQ = 0, result = None, loading = False,
      error = None, startTime = now, inflight = None\<rparr>"

subsection \<open>\<^verbatim>\<open>handleStartQuiz\<close>\<close>

text \<open>Lines 80 to 89, up to the \<^verbatim>\<open>await\<close>.\<close>

definition handleStartQuiz_begin :: "QuizPage \<Rightarrow> QuizPage" where
  "handleStartQuiz_begin s =
     (if subject s = [] \<or> chapterId s = [] then s
      else s\<lparr>loading := True, error := None,
             inflight := Some (Generate
               \<lparr>g_student_id = map_option st_id (student s), g_subject = subject s,
                g_chapter_id = chapterId s, num_questions = 5\<rparr>)\<rparr>)"

text \<open>
  \<^verbatim>\<open>!res.data?.questions?.length\<close>: the body is missing, has no question list, or the list
  is empty. A body without a question list is \<open>None\<close>.
\<close>

definition no_questions :: "QuizData option \<Rightarrow> bool" where
  "no_questions d = (case d of None \<Rightarrow> True | Some qd \<Rightarrow> questions qd = [])"

text \<open>Lines 90 to 103, after the \<^verbatim>\<open>await\<close>; \<^verbatim>\<open>finally\<close> clears the loading flag.\<close>

definition handleStartQuiz_settle :: "QuizData option outcome \<Rightarrow> QuizPage \<Rightarrow> QuizPage" where
  "handleStartQuiz_settle oc s =
     (case oc of
        Resolved d \<Rightarrow>
          (if no_questions d
           then s\<lparr>error := Some ''Quiz returned no questions. Please try again.''\<rparr>
           else s\<lparr>quiz := d, step := Quiz, currentQ := 0, answers := []\<rparr>)
      | Rejected err \<Rightarrow>
          s\<lparr>error := Some (if message_includes err ''timeout''
                           then ''Server timed out. Try again.''
                           else ''Failed to generate quiz. Check your connection.'')\<rparr>)
     \<lparr>loading := False, inflight := None\<rparr>"


subsection \<open>\<^verbatim>\<open>handleSelectAnswer\<close>\<close>

text \<open>\<^verbatim>\<open>setAnswers(prev => ({ ...prev, [questionId]: answer }))\<close>.\<close>

definition handleSelectAnswer :: "int \<Rightarrow> string \<Rightarrow> QuizPage \<Rightarrow> QuizPage" where
  "handleSelectAnswer questionId a s = s\<lparr>answers := AList.update questionId a (answers s)\<rparr>"

subsection \<open>\<^verbatim>\<open>handleSubmitQuiz\<close>\<close>

text \<open>
  \<^verbatim>\<open>(Date.now() - since) / 1000\<close>: milliseconds between two clock readings, in seconds,
  as the exact quotient.
\<close>

definition elapsed_seconds :: "int \<Rightarrow> int \<Rightarrow> rat" where
  "elapsed_seconds now since = of_int (now - since) / 1000"

text \<open>Lines 111 to 121, up to the \<^verbatim>\<open>await\<close>; \<open>now\<close> is \<^verbatim>\<open>Date.now()\<close> at the click.\<close>

definition handleSubmitQuiz_begin :: "int \<Rightarrow> QuizPage \<Rightarrow> QuizPage" where
  "handleSubmitQuiz_begin now s =
     (case quiz s of
        None \<Rightarrow> s
      | Some qd \<Rightarrow>
          s\<lparr>loading := True, error := None,
            inflight := Some (Submit
              \<lparr>s_student_id = map_option st_id (student s), s_quiz_id = quiz_id qd,
               s_answers = answers s,
               time_taken = elapsed_seconds now (startTime s)\<rparr>)\<rparr>)"

text \<open>Lines 122 to 129, after the \<^verbatim>\<open>await\<close>.\<close>

definition handleSubmitQuiz_settle :: "QuizResult outcome \<Rightarrow> QuizPage \<Rightarrow> QuizPage" where
  "handleSubmitQuiz_settle oc s =
     (case oc of
        Resolved r \<Rightarrow> s\<lparr>result := Some r, step := Result\<rparr>
      | Rejected err \<Rightarrow>
          s\<lparr>error := Some ''Failed to submit quiz. Your answers were not saved.''\<rparr>)
     \<lparr>loading := False, inflight := None\<rparr>"

definition handleSubmitQuiz :: "QuizPage \<Rightarrow> int \<Rightarrow> QuizResult outcome \<Rightarrow> QuizPage" where
  "handleSubmitQuiz s now oc =
     (if quiz s = None then s
      else handleSubmitQuiz_settle oc (handleSubmitQuiz_begin now s))"

subsection \<open>The three views and their controls\<close>

text \<open>The \<^verbatim>\<open>New Quiz\<close> button: \<^verbatim>\<open>setStep('setup'); setQuiz(null); setResult(null)\<close>.\<close>

definition newQuiz :: "QuizPage \<Rightarrow> QuizPage" where
  "newQuiz s = s\<lparr>step := Setup, quiz := None, result := None\<rparr>"

text \<open>
  What can happen to the page: a click on a control that the current view renders and
  enables, or the settling of the request in flight.
\<close>

datatype event =
    ClickSubject string
  | ClickChapter string
  | ClickStart
  | GenerateSettled "QuizData option outcome"
  | ClickOption string
  | ClickPrevious
  | ClickNext
  | ClickSubmit
  | SubmitSettled "QuizResult outcome"
  | ClickNewQuiz

text \<open>
  The setup view. A subject button sets the subject and clears the chapter; a chapter
  button sets the chapter (which buttons exist depends on the fetched catalogue, so any
  identifier is allowed here); the start button is disabled by
  \<^verbatim>\<open>!subject || !chapterId || loading\<close>.
\<close>

definition setup_view :: "event \<Rightarrow> QuizPage \<Rightarrow> QuizPage option" where
  "setup_view e s =
     (case e of
        ClickSubject sid \<Rightarrow> Some (s\<lparr>subject := sid, chapterId := []\<rparr>)
      | ClickChapter cid \<Rightarrow> Some (s\<lparr>chapterId := cid\<rparr>)
      | ClickStart \<Rightarrow>
          (if subject s = [] \<or> chapterId s = [] \<or> loading s then None
           else Some (handleStartQuiz_begin s))
      | _ \<Rightarrow> None)"

text \<open>
  \<^verbatim>\<open>quiz.questions[currentQ]\<close>: undefined outside the list, and the quiz view then throws
  while rendering (\<^verbatim>\<open>q.question\<close>), so it offers no control.
\<close>

definition current_question :: "QuizData \<Rightarrow> QuizPage \<Rightarrow> QuizQuestion option" where
  "current_question qd s =
     (if 0 \<le> currentQ s \<and> currentQ s < int (length (questions qd))
      then Some (questions qd ! nat (currentQ s)) else None)"

definition isLast :: "QuizData \<Rightarrow> QuizPage \<Rightarrow> bool" where
  "isLast qd s \<longleftrightarrow> currentQ s = int (length (questions qd)) - 1"

definition allAnswered :: "QuizData \<Rightarrow> QuizPage \<Rightarrow> bool" where
  "allAnswered qd s \<longleftrightarrow> list_all (\<lambda>q. truthy (map_of (answers s) (q_id q))) (questions qd)"

text \<open>
  The quiz view on question \<open>q\<close>: one button per option of \<open>q\<close>; \<^verbatim>\<open>Previous\<close> is rendered
  when \<^verbatim>\<open>currentQ > 0\<close>; on the last question the submit button, disabled by
  \<^verbatim>\<open>!allAnswered || loading\<close>; otherwise \<^verbatim>\<open>Next\<close>, disabled by \<^verbatim>\<open>!answers[q.id]\<close>.
\<close>

definition quiz_view :: "int \<Rightarrow> event \<Rightarrow> QuizData \<Rightarrow> QuizQuestion \<Rightarrow> QuizPage \<Rightarrow> QuizPage option" where
  "quiz_view now e qd q s =
     (case e of
        ClickOption opt \<Rightarrow>
          (if opt \<in> set (options q) then Some (handleSelectAnswer (q_id q) opt s) else None)
      | ClickPrevious \<Rightarrow>
          (if currentQ s > 0 then Some (s\<lparr>currentQ := currentQ s - 1\<rparr>) else None)
      | ClickNext \<Rightarrow>
          (if \<not> isLast qd s \<and> truthy (map_of (answers s) (q_id q))
           then Some (s\<lparr>currentQ := currentQ s + 1\<rparr>) else None)
      | ClickSubmit \<Rightarrow>
          (if isLast qd s \<and> allAnswered qd s \<and> \<not> loading s
           then Some (handleSubmitQuiz_begin now s) else None)
      | _ \<Rightarrow> None)"

definition result_view :: "event \<Rightarrow> QuizPage \<Rightarrow> QuizPage option" where
  "result_view e s = (case e of ClickNewQuiz \<Rightarrow> Some (newQuiz s) | _ \<Rightarrow> None)"

text \<open>
  The component body chooses the view: \<^verbatim>\<open>step === 'setup'\<close>, else
  \<^verbatim>\<open>step === 'quiz' && quiz\<close>, else \<^verbatim>\<open>step === 'result' && result\<close>, else nothing.
\<close>

definition click :: "int \<Rightarrow> event \<Rightarrow> QuizPage \<Rightarrow> QuizPage option" where
  "click now e s =
     (if step s = Setup then setup_view e s
      else if step s = Quiz \<and> quiz s \<noteq> None then
        (case quiz s of
           None \<Rightarrow> None
         | Some qd \<Rightarrow>
             (case current_question qd s of
                None \<Rightarrow> None
              | Some q \<Rightarrow> quiz_view now e qd q s))
      else if step s = Result \<and> result s \<noteq> None then result_view e s
      else None)"

text \<open>
  The error banner: \<^verbatim>\<open>{error && <div>...{error}</div>}\<close> stands in the setup view only
  (lines 136 to 140); the quiz view and the result view render no error.
\<close>

definition error_banner :: "QuizPage \<Rightarrow> string option" where
  "error_banner s = (if step s = Setup \<and> truthy (error s) then error s else None)"

text \<open>
  One event at clock \<open>now\<close>; \<open>None\<close> when the event cannot happen in this state. A
  request settles only while it is the one in flight.
\<close>

definition fire :: "int \<Rightarrow> event \<Rightarrow> QuizPage \<Rightarrow> QuizPage option" where
  "fire now e s =
     (case e of
        GenerateSettled oc \<Rightarrow>
          (case inflight s of
             Some (Generate req) \<Rightarrow> Some (handleStartQuiz_settle oc s)
           | _ \<Rightarrow> None)
      | SubmitSettled oc \<Rightarrow>
          (case inflight s of
             Some (Submit req) \<Rightarrow> Some (handleSubmitQuiz_settle oc s)
           | _ \<Rightarrow> None)
      | _ \<Rightarrow> click now e s)"

fun run :: "QuizPage \<Rightarrow> (int \<times> event) list \<Rightarrow> QuizPage option" where
  "run s [] = Some s"
| "run s ((now, e) # evs) = (case fire now e s of None \<Rightarrow> None | Some s' \<Rightarrow> run s' evs)"

inductive reachable :: "QuizPage \<Rightarrow> bool" where
  mounted: "reachable (mount st subject_param chapter_param now)"
| fired: "reachable s \<Longrightarrow> fire now e s = Some s' \<Longrightarrow> reachable s'"

subsection \<open>The result view's figures\<close>

text \<open>
  JavaScript numbers are IEEE 754 doubles. A finite double is held as a pair of integers,
  mantissa and exponent, standing for \<open>m * 2 ^ x\<close>; an integer of magnitude below
  \<open>2 ^ 53\<close> is the pair with exponent 0. Overflow, subnormal numbers, infinities
  and NaN are not modelled: the operations below are those of doubles for operands and
  results in the normal range, and division presupposes a divisor that is not zero.
\<close>

type_synonym double = "int \<times> int"

definition dval :: "double \<Rightarrow> rat" where
  "dval d = of_int (fst d) * 2 powi (snd d)"

text \<open>Numerator and denominator of \<open>a / b * 2 ^ k\<close>, for an integer \<open>k\<close> of either sign.\<close>

definition scaled :: "int \<Rightarrow> int \<Rightarrow> int \<Rightarrow> int \<times> int" where
  "scaled a b k = (if 0 \<le> k then (a * 2 ^ nat k, b) else (a, b * 2 ^ nat (- k)))"

text \<open>The integer nearest to \<open>n / d\<close> for \<open>d > 0\<close>, a tie going to the even one.\<close>

definition round_half_even :: "int \<Rightarrow> int \<Rightarrow> int" where
  "round_half_even n d =
     (let q = n div d; r = n mod d
      in if 2 * r < d then q else if d < 2 * r then q + 1 else if even q then q else q + 1)"

text \<open>
  Rounding the quotient of two positive integers to 53 significant bits: the quotient is
  scaled by the power of two that brings it into \<open>[2 ^ 52, 2 ^ 53)\<close>, rounded to an
  integer there, and the scaling is kept as the exponent.
\<close>

definition round_pos :: "int \<Rightarrow> int \<Rightarrow> double" where
  "round_pos a b =
     (let k0 = 53 - (bitlen a - bitlen b);
          k = (if 2 ^ 53 * snd (scaled a b k0) \<le> fst (scaled a b k0) then k0 - 1 else k0)
      in (round_half_even (fst (scaled a b k)) (snd (scaled a b k)), - k))"

definition fround :: "int \<Rightarrow> int \<Rightarrow> double" where
  "fround a b =
     (if a = 0 then (0, 0)
      else (sgn a * sgn b * fst (round_pos \<bar>a\<bar> \<bar>b\<bar>), snd (round_pos \<bar>a\<bar> \<bar>b\<bar>)))"

text \<open>Division and multiplication of doubles: the exact result, rounded.\<close>

definition fdiv :: "double \<Rightarrow> double \<Rightarrow> double" where
  "fdiv p q = (fst (fround (fst p) (fst q)), snd (fround (fst p) (fst q)) + snd p - snd q)"

definition fmul :: "double \<Rightarrow> double \<Rightarrow> double" where
  "fmul p q = (fst (fround (fst p * fst q) 1), snd (fround (fst p * fst q) 1) + snd p + snd q)"

text \<open>\<^verbatim>\<open>Math.round\<close>: the nearest integer, a half going upwards.\<close>

definition math_round :: "double \<Rightarrow> int" where
  "math_round d =
     (if 0 \<le> snd d then fst d * 2 ^ nat (snd d)
      else (2 * fst d + 2 ^ nat (- snd d)) div (2 * 2 ^ nat (- snd d)))"

text \<open>
  \<^verbatim>\<open>Math.round((result.score / result.total) * 100)\<close> and \<^verbatim>\<open>percentage >= 60\<close>, with
  \<^verbatim>\<open>score\<close> and \<^verbatim>\<open>total\<close> integers of magnitude below \<open>2 ^ 53\<close>.
\<close>

definition percentage :: "QuizResult \<Rightarrow> int" where
  "percentage r = math_round (fmul (fdiv (score r, 0) (total_n r, 0)) (100, 0))"

definition isGood :: "QuizResult \<Rightarrow> bool" where
  "isGood r \<longleftrightarrow> percentage r \<ge> 60"

subsection \<open>When a quiz session started\<close>

text \<open>
  The page stores no clock reading for the setup-to-quiz transition. Along a trace of
  timed events it is the clock of the latest event that took the page from the setup
  step to the quiz step: the moment the current quiz session started.
\<close>

fun quiz_started_at :: "QuizPage \<Rightarrow> (int \<times> event) list \<Rightarrow> int option \<Rightarrow> int option" where
  "quiz_started_at s [] acc = acc"
| "quiz_started_at s ((now, e) # evs) acc =
     (case fire now e s of
        None \<Rightarrow> acc
      | Some s' \<Rightarrow>
          quiz_started_at s' evs (if step s = Setup \<and> step s' = Quiz then Some now else acc))"

section \<open>The invariants of the quiz page\<close>

text \<open>
  Which request is in flight, and which questions have an entry in \<^verbatim>\<open>answers\<close>.
\<close>

definition no_generate :: "request option \<Rightarrow> bool" where
  "no_generate r = (case r of Some (Generate g) \<Rightarrow> False | _ \<Rightarrow> True)"

definition no_submit :: "request option \<Rightarrow> bool" where
  "no_submit r = (case r of Some (Submit g) \<Rightarrow> False | _ \<Rightarrow> True)"

definition all_recorded :: "QuizData \<Rightarrow> QuizPage \<Rightarrow> bool" where
  "all_recorded qd s \<longleftrightarrow> set (map q_id (questions qd)) \<subseteq> set (map fst (answers s))"

text \<open>
  While a quiz is shown, the index points into the question list and every key of
  \<^verbatim>\<open>answers\<close> is the id of one of its questions.
\<close>

definition session_ok :: "QuizData \<Rightarrow> QuizPage \<Rightarrow> bool" where
  "session_ok qd s \<longleftrightarrow>
     0 \<le> currentQ s \<and> currentQ s < int (length (questions qd))
     \<and> set (map fst (answers s)) \<subseteq> set (map q_id (questions qd))"

text \<open>
  What holds in every state the page can reach: the keys of \<^verbatim>\<open>answers\<close> are pairwise
  distinct, \<^verbatim>\<open>loading\<close> is set exactly while a request is in flight, and per step: in
  setup there is no quiz and no submission in flight; in the quiz step the session is
  well formed, no generation is in flight, and a submission is in flight only with every
  question recorded; in the result step there is a result, nothing is in flight and every
  question is recorded.
\<close>

definition page_inv :: "QuizPage \<Rightarrow> bool" where
  "page_inv s \<longleftrightarrow>
     distinct (map fst (answers s))
     \<and> (loading s \<longleftrightarrow> inflight s \<noteq> None)
     \<and> (case step s of
           Setup \<Rightarrow> quiz s = None \<and> no_submit (inflight s)
         | Quiz \<Rightarrow>
             (case quiz s of
                None \<Rightarrow> False
              | Some qd \<Rightarrow> session_ok qd s \<and> no_generate (inflight s)
                  \<and> (no_submit (inflight s) \<or> all_recorded qd s))
         | Result \<Rightarrow>
             (case quiz s of
                None \<Rightarrow> False
              | Some qd \<Rightarrow> session_ok qd s \<and> inflight s = None \<and> result s \<noteq> None
                  \<and> all_recorded qd s))"

text \<open>
  Where the message of a failed submission can be: while a submission is in flight the
  error cell is empty, and outside the quiz step the cell never holds that message.
\<close>

definition error_inv :: "QuizPage \<Rightarrow> bool" where
  "error_inv s \<longleftrightarrow>
     (no_submit (inflight s) \<or> error s = None)
     \<and> (step s = Quiz \<or> error s \<noteq> Some ''Failed to submit quiz. Your answers were not saved.'')"

section \<open>Example data\<close>

text \<open>
  A student, a two-question quiz, a quiz whose two questions carry the same id, results,
  and the pages and traces of one visit.
\<close>

definition demo_student :: Student where
  "demo_student = \<lparr>st_id = ''s1'', st_name = ''Asha''\<rparr>"

definition question_3 :: QuizQuestion where
  "question_3 = \<lparr>q_id = 3, question = ''Solve 2x = 8'', options = [''A'', ''B'', ''C'', ''D'']\<rparr>"

definition question_4 :: QuizQuestion where
  "question_4 = \<lparr>q_id = 4, question = ''Solve x + 1 = 3'', options = [''A'', ''B'', ''C'', ''D'']\<rparr>"

definition quiz_two :: QuizData where
  "quiz_two = \<lparr>quiz_id = ''quiz-1'', qd_difficulty = ''easy'', questions = [question_3, question_4]\<rparr>"

definition twin_a :: QuizQuestion where
  "twin_a = \<lparr>q_id = 7, question = ''Solve 3x = 9'', options = [''A'', ''B'', ''C'', ''D'']\<rparr>"

definition twin_b :: QuizQuestion where
  "twin_b = \<lparr>q_id = 7, question = ''Solve 5x = 5'', options = [''A'', ''B'', ''C'', ''D'']\<rparr>"

definition quiz_twins :: QuizData where
  "quiz_twins = \<lparr>quiz_id = ''quiz-2'', qd_difficulty = ''easy'', questions = [twin_a, twin_b]\<rparr>"


definition result_4_of_5 :: QuizResult where
  "result_4_of_5 = \<lparr>score = 4, total_n = 5, xp_gained = 40, res_difficulty = ''medium'',
     confidence_score = 7/10, learning_momentum = 1/2, weak_topics = []\<rparr>"

definition result_23_of_40 :: QuizResult where
  "result_23_of_40 = \<lparr>score = 23, total_n = 40, xp_gained = 230, res_difficulty = ''medium'',
     confidence_score = 1/2, learning_momentum = 1/2, weak_topics = []\<rparr>"

definition result_25_of_42 :: QuizResult where
  "result_25_of_42 = \<lparr>score = 25, total_n = 42, xp_gained = 250, res_difficulty = ''medium'',
     confidence_score = 1/2, learning_momentum = 1/2, weak_topics = []\<rparr>"

definition connection_lost :: js_error where
  "connection_lost = \<lparr>err_name = ''AxiosError'', err_message = Some ''Network Error''\<rparr>"

definition fresh_page :: QuizPage where
  "fresh_page = mount (Some demo_student) None None 1000"

definition chosen_page :: QuizPage where
  "chosen_page = fresh_page\<lparr>subject := ''math'', chapterId := ''ch1_linear_equations''\<rparr>"

definition first_question_page :: QuizPage where
  "first_question_page = chosen_page\<lparr>step := Quiz, quiz := Some quiz_two\<rparr>"

definition answered_page :: QuizPage where
  "answered_page = first_question_page\<lparr>answers := [(3, ''D'')]\<rparr>"

definition second_question_page :: QuizPage where
  "second_question_page = answered_page\<lparr>currentQ := 1\<rparr>"

definition complete_page :: QuizPage where
  "complete_page = first_question_page\<lparr>answers := [(3, ''D''), (4, ''A'')], currentQ := 1\<rparr>"

definition failed_page :: QuizPage where
  "failed_page = complete_page\<lparr>error := Some ''Failed to submit quiz. Your answers were not saved.''\<rparr>"

definition result_page :: QuizPage where
  "result_page = complete_page\<lparr>step := Result, result := Some result_4_of_5\<rparr>"

definition twin_done :: QuizPage where
  "twin_done = \<lparr>student = Some demo_student, step = Result, subject = ''math'',
     chapterId = ''ch1_linear_equations'', quiz = Some quiz_twins, answers = [(7, ''A'')],
     currentQ = 1, result = Some result_4_of_5, loading = False, error = None,
     startTime = 1000, inflight = None\<rparr>"

text \<open>
  A visit: the page is mounted at clock 1000, the subject and chapter are chosen, the
  quiz is requested at 4000 and arrives at 61000.
\<close>

definition start_of :: "QuizData \<Rightarrow> (int \<times> event) list" where
  "start_of qd = [(2000, ClickSubject ''math''), (3000, ClickChapter ''ch1_linear_equations''),
     (4000, ClickStart), (61000, GenerateSettled (Resolved (Some qd)))]"

definition twin_trace :: "(int \<times> event) list" where
  "twin_trace = start_of quiz_twins @
     [(70000, ClickOption ''A''), (75000, ClickNext), (91000, ClickSubmit),
      (92000, SubmitSettled (Resolved result_4_of_5))]"

definition submit_trace :: "(int \<times> event) list" where
  "submit_trace = start_of quiz_two @
     [(70000, ClickOption ''D''), (75000, ClickNext), (80000, ClickOption ''A''),
      (91000, ClickSubmit)]"

text \<open>
  A learning page ready to send, an answer, and a question-answering service that takes
  20000 ms to give it.
\<close>

definition chat_ready :: LearningPage where
  "chat_ready = \<lparr>lp_student = Some demo_student, subjectId = Some ''math'',
     lp_chapterId = Some ''ch1_linear_equations'', messages = [],
     input = ''Explain the key concepts'', isLoading = False, lp_error = None\<rparr>"

definition key_concepts :: ChatResponse where
  "key_concepts = \<lparr>answer = ''A linear equation has degree one.'', cr_sources = [],
     student_xp = 10, cr_difficulty = ''easy''\<rparr>"

definition slow_answer :: "ChatResponse backend" where
  "slow_answer = \<lparr>latency = 20000, reply = Resolved key_concepts\<rparr>"

section \<open>Evaluation rules\<close>

text \<open>
  The definitions a concrete page, trace or chat send is evaluated with.
\<close>

lemmas page_defs = mount_def elapsed_seconds_def handleStartQuiz_begin_def handleStartQuiz_settle_def no_questions_def
  handleSelectAnswer_def handleSubmitQuiz_begin_def handleSubmitQuiz_settle_def newQuiz_def
  setup_view_def current_question_def isLast_def allAnswered_def quiz_view_def result_view_def
  click_def fire_def truthy_def

lemmas demo_defs = demo_student_def question_3_def question_4_def quiz_two_def fresh_page_def
  result_4_of_5_def start_of_def

lemmas demo_pages = chosen_page_def first_question_page_def answered_page_def complete_page_def
  result_page_def

lemmas chat_defs = handleSendMessage_def send_blocked_def ask_def on_ask_resolved_def
  on_ask_rejected_def api_post_def api_timeout_def trim_def white_space_def strip_lead.simps truthy_def
  isTimeout_def message_includes_def timeout_text_def connection_text_def

lemmas chat_demo = chat_ready_def key_concepts_def demo_student_def

lemmas double_defs = percentage_def math_round_def fmul_def fdiv_def fround_def round_pos_def
  round_half_even_def scaled_def compute_bitlen Let_def

section \<open>The invariant is preserved\<close>

lemma keys_update: "fst ` set (AList.update k v al) = insert k (fst ` set al)"
  using dom_update [of k v al] by simp

lemma current_question_mem:
  "current_question qd s = Some q \<Longrightarrow> q \<in> set (questions qd)"
  by (auto simp: current_question_def split: if_splits)

lemma truthy_recorded: "truthy (map_of al k) \<Longrightarrow> k \<in> set (map fst al)"
proof -
  assume "truthy (map_of al k)"
  then have "map_of al k \<noteq> None" by (auto simp: truthy_def split: option.splits)
  then have "k \<in> fst ` set al" by (simp add: map_of_eq_None_iff)
  then show ?thesis by simp
qed

lemma allAnswered_recorded: "allAnswered qd s \<Longrightarrow> all_recorded qd s"
proof -
  assume a: "allAnswered qd s"
  have "q_id q \<in> set (map fst (answers s))" if "q \<in> set (questions qd)" for q
    using a that by (intro truthy_recorded) (simp add: allAnswered_def list_all_iff)
  then show ?thesis by (auto simp: all_recorded_def)
qed

lemma length_keys_le:
  assumes "distinct (map fst al)" "set (map fst al) \<subseteq> set ids"
  shows "length al \<le> length ids"
proof -
  have "length al = card (set (map fst al))"
    using distinct_card [OF assms(1)] by simp
  also have "\<dots> \<le> card (set ids)"
    using assms(2) by (intro card_mono) simp_all
  also have "\<dots> \<le> length ids" by (rule card_length)
  finally show ?thesis .
qed

lemma length_keys_eq:
  assumes "distinct (map fst al)" "set (map fst al) = set ids" "distinct ids"
  shows "length al = length ids"
proof -
  have "length al = card (set (map fst al))"
    using distinct_card [OF assms(1)] by simp
  also have "\<dots> = card (set ids)" by (simp only: assms(2))
  also have "\<dots> = length ids" using assms(3) by (rule distinct_card)
  finally show ?thesis .
qed

lemma page_inv_mount: "page_inv (mount st sp cp now)"
  by (simp add: page_inv_def mount_def no_submit_def)

lemma inv_generate_settled:
  assumes "page_inv s" "inflight s = Some (Generate req)"
  shows "page_inv (handleStartQuiz_settle oc s)"
proof -
  from assms have st: "step s = Setup"
    by (cases "step s") (auto simp: page_inv_def no_generate_def split: option.splits)
  show ?thesis
  proof (cases oc)
    case (Resolved d)
    show ?thesis
    proof (cases "no_questions d")
      case True
      with assms st Resolved show ?thesis
        by (simp add: page_inv_def handleStartQuiz_settle_def no_submit_def)
    next
      case False
      then obtain qd where "d = Some qd" "questions qd \<noteq> []"
        by (auto simp: no_questions_def split: option.splits)
      with assms st Resolved False show ?thesis
        by (simp add: page_inv_def handleStartQuiz_settle_def no_submit_def no_generate_def
            session_ok_def)
    qed
  next
    case (Rejected err)
    with assms st show ?thesis
      by (simp add: page_inv_def handleStartQuiz_settle_def no_submit_def)
  qed
qed

lemma inv_submit_settled:
  assumes "page_inv s" "inflight s = Some (Submit req)"
  shows "page_inv (handleSubmitQuiz_settle oc s)"
proof -
  from assms have st: "step s = Quiz"
    by (cases "step s") (auto simp: page_inv_def no_submit_def split: option.splits)
  with assms obtain qd where qd: "quiz s = Some qd" "session_ok qd s" "all_recorded qd s"
    by (auto simp: page_inv_def no_submit_def split: option.splits)
  from assms have d: "distinct (map fst (answers s))" by (simp add: page_inv_def)
  show ?thesis
  proof (cases oc)
    case (Resolved r)
    with qd d show ?thesis
      by (simp add: page_inv_def handleSubmitQuiz_settle_def session_ok_def all_recorded_def)
  next
    case (Rejected err)
    with qd d st show ?thesis
      by (simp add: page_inv_def handleSubmitQuiz_settle_def session_ok_def all_recorded_def
          no_generate_def no_submit_def)
  qed
qed

lemma inv_setup_view:
  assumes "page_inv s" "step s = Setup" "setup_view e s = Some s'"
  shows "page_inv s'"
  using assms
  by (cases e)
     (auto simp: setup_view_def page_inv_def handleStartQuiz_begin_def no_submit_def
           split: if_splits)

lemma inv_quiz_view:
  assumes "page_inv s" "step s = Quiz" "quiz s = Some qd" "current_question qd s = Some q"
    "quiz_view now e qd q s = Some s'"
  shows "page_inv s'"
proof -
  from assms have ok: "session_ok qd s" and d: "distinct (map fst (answers s))"
    and ld: "loading s \<longleftrightarrow> inflight s \<noteq> None" and ng: "no_generate (inflight s)"
    and ns: "no_submit (inflight s) \<or> all_recorded qd s"
    by (auto simp: page_inv_def)
  have qin: "q_id q \<in> set (map q_id (questions qd))"
    using current_question_mem [OF assms(4)] by simp
  show ?thesis
  proof (cases e)
    case (ClickOption opt)
    with assms have s': "s' = handleSelectAnswer (q_id q) opt s"
      by (simp add: quiz_view_def split: if_splits)
    from ok qin d ld ng ns assms(2,3) show ?thesis
      unfolding s'
      by (auto simp: page_inv_def handleSelectAnswer_def session_ok_def all_recorded_def
          keys_update distinct_update)
  next
    case ClickPrevious
    with assms have s': "s' = s\<lparr>currentQ := currentQ s - 1\<rparr>" and pos: "currentQ s > 0"
      by (auto simp: quiz_view_def split: if_splits)
    from ok d ld ng ns assms(2,3) pos show ?thesis
      unfolding s'
      by (auto simp: page_inv_def session_ok_def all_recorded_def)
  next
    case ClickNext
    with assms have s': "s' = s\<lparr>currentQ := currentQ s + 1\<rparr>" and nl: "\<not> isLast qd s"
      by (auto simp: quiz_view_def split: if_splits)
    from ok d ld ng ns assms(2,3) nl show ?thesis
      unfolding s'
      by (auto simp: page_inv_def session_ok_def all_recorded_def isLast_def)
  next
    case ClickSubmit
    with assms have s': "s' = handleSubmitQuiz_begin now s" and aa: "allAnswered qd s"
      and nl: "\<not> loading s"
      by (auto simp: quiz_view_def split: if_splits)
    from ok d ld ng assms(2,3) nl allAnswered_recorded [OF aa] show ?thesis
      unfolding s'
      by (auto simp: page_inv_def session_ok_def all_recorded_def handleSubmitQuiz_begin_def
          no_generate_def)
  qed (use assms in \<open>simp_all add: quiz_view_def\<close>)
qed

lemma inv_result_view:
  assumes "page_inv s" "step s = Result" "result_view e s = Some s'"
  shows "page_inv s'"
  using assms
  by (cases e)
     (auto simp: result_view_def page_inv_def newQuiz_def no_submit_def split: option.splits)

lemma inv_click:
  assumes "page_inv s" "click now e s = Some s'"
  shows "page_inv s'"
proof (cases "step s")
  case Setup
  with assms show ?thesis by (auto simp: click_def intro: inv_setup_view)
next
  case Quiz
  with assms show ?thesis
    by (auto simp: click_def split: option.splits if_splits intro: inv_quiz_view)
next
  case Result
  with assms show ?thesis
    by (auto simp: click_def split: option.splits if_splits intro: inv_result_view)
qed

lemma inv_fire:
  assumes "page_inv s" "fire now e s = Some s'"
  shows "page_inv s'"
  using assms
  by (cases e)
     (auto simp: fire_def split: option.splits request.splits
           intro: inv_click inv_generate_settled inv_submit_settled)

lemma reachable_inv: "reachable s \<Longrightarrow> page_inv s"
  by (induction rule: reachable.induct) (auto intro: page_inv_mount inv_fire)

text \<open>
  Running a trace from a reachable page ends in a reachable page.
\<close>

lemma reachable_run: "reachable s \<Longrightarrow> run s evs = Some s' \<Longrightarrow> reachable s'"
proof (induction evs arbitrary: s)
  case Nil
  then show ?case by simp
next
  case (Cons te evs)
  obtain t e where te: "te = (t, e)" by (cases te)
  from Cons.prems(2) te obtain s1 where f: "fire t e s = Some s1" and r: "run s1 evs = Some s'"
    by (auto split: option.splits)
  from Cons.prems(1) f have "reachable s1" by (rule reachable.fired)
  then show ?case using r by (rule Cons.IH)
qed

lemma error_inv_fire:
  assumes "page_inv s" "error_inv s" "fire now e s = Some s'"
  shows "error_inv s'"
proof (cases e)
  case (GenerateSettled oc)
  with assms(3) obtain g where g: "inflight s = Some (Generate g)"
    and s': "s' = handleStartQuiz_settle oc s"
    by (auto simp: fire_def split: option.splits request.splits)
  from assms(1) g have "step s = Setup"
    by (cases "step s") (auto simp: page_inv_def no_generate_def split: option.splits)
  with assms(2) show ?thesis unfolding s'
    by (cases oc)
       (auto simp: error_inv_def handleStartQuiz_settle_def no_submit_def)
next
  case (SubmitSettled oc)
  with assms(3) obtain r where r: "inflight s = Some (Submit r)"
    and s': "s' = handleSubmitQuiz_settle oc s"
    by (auto simp: fire_def split: option.splits request.splits)
  from assms(1) r have "step s = Quiz"
    by (cases "step s") (auto simp: page_inv_def no_submit_def split: option.splits)
  moreover from assms(2) r have "error s = None"
    by (simp add: error_inv_def no_submit_def)
  ultimately show ?thesis unfolding s'
    by (cases oc)
       (auto simp: error_inv_def handleSubmitQuiz_settle_def no_submit_def)
qed (use assms(2,3) in \<open>auto simp: error_inv_def fire_def click_def setup_view_def quiz_view_def
        result_view_def handleStartQuiz_begin_def handleSelectAnswer_def
        handleSubmitQuiz_begin_def newQuiz_def no_submit_def
        split: option.splits if_splits\<close>)

lemma reachable_error_inv: "reachable s \<Longrightarrow> error_inv s"
proof (induction rule: reachable.induct)
  case (mounted st subject_param chapter_param now)
  show ?case by (simp add: error_inv_def mount_def no_submit_def)
next
  case (fired s now e s')
  from fired.hyps(1) have "page_inv s" by (rule reachable_inv)
  then show ?case using fired.IH fired.hyps(2) by (rule error_inv_fire)
qed

section \<open>How the step and the request in flight change\<close>

text \<open>
  Only three events change the step: a submission that resolves, a generation that
  resolves with questions, and the new-quiz button.
\<close>

lemma step_changes:
  assumes "fire now e s = Some s'" "step s' \<noteq> step s"
  shows "(\<exists>r. e = SubmitSettled (Resolved r) \<and> step s' = Result)
       \<or> (\<exists>qd. e = GenerateSettled (Resolved (Some qd)) \<and> step s' = Quiz)
       \<or> (e = ClickNewQuiz \<and> step s = Result \<and> step s' = Setup)"
proof (cases e)
  case (GenerateSettled oc)
  with assms show ?thesis
    by (cases oc)
       (auto simp: fire_def handleStartQuiz_settle_def no_questions_def
             split: option.splits request.splits if_splits)
next
  case (SubmitSettled oc)
  with assms show ?thesis
    by (cases oc)
       (auto simp: fire_def handleSubmitQuiz_settle_def split: option.splits request.splits)
next
  case ClickNewQuiz
  with assms show ?thesis
    by (auto simp: fire_def click_def setup_view_def quiz_view_def result_view_def newQuiz_def
        split: option.splits if_splits)
qed (use assms in \<open>auto simp: fire_def click_def setup_view_def quiz_view_def result_view_def
        handleStartQuiz_begin_def handleSelectAnswer_def handleSubmitQuiz_begin_def
        split: option.splits if_splits\<close>)

lemma click_submit_enabled:
  assumes "fire now ClickSubmit s = Some s'"
  shows "\<exists>qd. step s = Quiz \<and> quiz s = Some qd \<and> isLast qd s \<and> allAnswered qd s \<and> \<not> loading s
           \<and> s' = handleSubmitQuiz_begin now s"
  using assms
  by (auto simp: fire_def click_def setup_view_def quiz_view_def result_view_def
      split: option.splits if_splits)

lemma submit_in_flight_only_by_click:
  assumes "fire now e s = Some s'" "no_submit (inflight s)" "\<not> no_submit (inflight s')"
  shows "e = ClickSubmit"
proof (cases e)
  case (GenerateSettled oc)
  with assms show ?thesis
    by (auto simp: fire_def handleStartQuiz_settle_def no_submit_def
        split: option.splits request.splits)
next
  case (SubmitSettled oc)
  with assms show ?thesis
    by (auto simp: fire_def handleSubmitQuiz_settle_def no_submit_def
        split: option.splits request.splits)
qed (use assms in \<open>auto simp: fire_def click_def setup_view_def quiz_view_def result_view_def
        handleStartQuiz_begin_def handleSelectAnswer_def newQuiz_def no_submit_def
        split: option.splits if_splits\<close>)

section \<open>The example pages are reachable\<close>

lemma reachable_fresh: "reachable fresh_page"
  unfolding fresh_page_def by (rule reachable.mounted)


lemma reachable_first_question: "reachable first_question_page"
proof -
  have "run fresh_page (start_of quiz_two) = Some first_question_page"
    by (simp add: page_defs demo_defs demo_pages)
  with reachable_fresh show ?thesis by (rule reachable_run)
qed

lemma reachable_answered: "reachable answered_page"
proof -
  have "run first_question_page [(70000, ClickOption ''B''), (71000, ClickOption ''D'')]
      = Some answered_page"
    by (simp add: page_defs demo_defs demo_pages)
  with reachable_first_question show ?thesis by (rule reachable_run)
qed

lemma reachable_complete: "reachable complete_page"
proof -
  have "run answered_page [(75000, ClickNext), (80000, ClickOption ''A'')] = Some complete_page"
    by (simp add: page_defs demo_defs demo_pages)
  with reachable_answered show ?thesis by (rule reachable_run)
qed

section \<open>Rounding to a double\<close>

text \<open>
  The rounding steps of the double operations stay close to the exact values: an
  integer within a half of the scaled quotient, hence a double within a relative
  \<open>2 ^ -53\<close> of the quotient, and \<^verbatim>\<open>Math.round\<close> is the floor of the value plus a half.
\<close>

lemma round_half_even_near:
  fixes n d :: int
  assumes "0 < d"
  shows "\<bar>of_int (round_half_even n d) - (of_int n / of_int d :: rat)\<bar> \<le> 1 / 2"
proof -
  define q where "q = n div d"
  define r where "r = n mod d"
  have n: "n = d * q + r" by (simp add: q_def r_def)
  have r: "0 \<le> r" "r < d" using assms by (simp_all add: r_def)
  have dpos: "(0 :: rat) < of_int d" using assms by simp
  have v: "(of_int n / of_int d :: rat) = of_int q + of_int r / of_int d"
    using dpos by (simp add: n field_simps)
  consider "2 * r < d" | "d < 2 * r" | "2 * r = d" by linarith
  then show ?thesis
  proof cases
    case 1
    then have "round_half_even n d = q"
      by (simp add: round_half_even_def q_def r_def Let_def)
    moreover have "(of_int r / of_int d :: rat) \<le> 1 / 2"
    proof -
      have "(2 :: rat) * of_int r \<le> of_int d"
        using 1 by (metis less_imp_le of_int_le_iff of_int_mult of_int_numeral)
      then show ?thesis using dpos by (simp add: field_simps)
    qed
    moreover have "(0 :: rat) \<le> of_int r / of_int d" using r dpos by simp
    ultimately show ?thesis using v by simp
  next
    case 2
    then have e: "round_half_even n d = q + 1"
      by (simp add: round_half_even_def q_def r_def Let_def)
    have "(1 / 2 :: rat) \<le> of_int r / of_int d"
    proof -
      have "(of_int d :: rat) \<le> 2 * of_int r"
        using 2 by (metis less_imp_le of_int_le_iff of_int_mult of_int_numeral)
      then show ?thesis using dpos by (simp add: field_simps)
    qed
    moreover have "(of_int r / of_int d :: rat) \<le> 1"
      using r dpos by (simp add: field_simps)
    ultimately show ?thesis using v e by simp
  next
    case 3
    then have e: "round_half_even n d = q \<or> round_half_even n d = q + 1"
      by (simp add: round_half_even_def q_def r_def Let_def)
    have "(of_int r / of_int d :: rat) = 1 / 2"
    proof -
      have "(of_int d :: rat) = 2 * of_int r"
        using 3 by (metis of_int_mult of_int_numeral)
      then show ?thesis using dpos by (simp add: field_simps)
    qed
    then show ?thesis using v e by auto
  qed
qed

lemma scaled_value:
  fixes a b k :: int
  assumes "0 < b"
  shows "0 < snd (scaled a b k)"
    and "(of_int (fst (scaled a b k)) / of_int (snd (scaled a b k)) :: rat)
           = of_int a / of_int b * 2 powi k"
proof -
  show "0 < snd (scaled a b k)" using assms by (simp add: scaled_def)
  show "(of_int (fst (scaled a b k)) / of_int (snd (scaled a b k)) :: rat)
           = of_int a / of_int b * 2 powi k"
  proof (cases "0 \<le> k")
    case True
    then show ?thesis by (simp add: scaled_def power_int_def)
  next
    case False
    then show ?thesis by (simp add: scaled_def power_int_def field_simps)
  qed
qed

lemma bitlen_powi:
  fixes a :: int
  assumes "0 < a"
  shows "(2 :: rat) powi (bitlen a - 1) \<le> of_int a" and "(of_int a :: rat) < 2 powi (bitlen a)"
proof -
  from bitlen_bounds [OF assms]
  have b: "2 ^ nat (bitlen a - 1) \<le> a" "a < 2 ^ nat (bitlen a)" by simp_all
  have l: "1 \<le> bitlen a" using assms by (simp add: bitlen_alt_def)
  have "(of_int (2 ^ nat (bitlen a - 1)) :: rat) \<le> of_int a"
    using b(1) by (simp only: of_int_le_iff)
  then show "(2 :: rat) powi (bitlen a - 1) \<le> of_int a"
    using l by (simp add: power_int_def)
  have "(of_int a :: rat) < of_int (2 ^ nat (bitlen a))"
    using b(2) by (simp only: of_int_less_iff)
  then show "(of_int a :: rat) < 2 powi (bitlen a)"
    using l by (simp add: power_int_def)
qed

lemma round_pos_near:
  fixes a b :: int
  assumes "0 < a" "0 < b"
  shows "0 < fst (round_pos a b)"
    and "\<bar>dval (round_pos a b) - of_int a / of_int b\<bar> \<le> (of_int a / of_int b) / 2 ^ 53"
proof -
  define q :: rat where "q = of_int a / of_int b"
  define k0 where "k0 = 53 - (bitlen a - bitlen b)"
  define k where "k = (if 2 ^ 53 * snd (scaled a b k0) \<le> fst (scaled a b k0) then k0 - 1 else k0)"
  define n where "n = fst (scaled a b k)"
  define d where "d = snd (scaled a b k)"
  define m where "m = round_half_even n d"
  define v :: rat where "v = q * 2 powi k"
  have rp: "round_pos a b = (m, - k)"
    by (simp add: round_pos_def Let_def k_def k0_def m_def n_def d_def)
  have qpos: "0 < q" using assms by (simp add: q_def)
  have apos: "(0 :: rat) < of_int a" and bpos: "(0 :: rat) < of_int b" using assms by simp_all
  have "q * 2 powi bitlen b \<ge> 2 powi (bitlen a - 1)"
  proof -
    have "(2 :: rat) powi (bitlen a - 1) \<le> of_int a" using assms(1) by (rule bitlen_powi)
    also have "\<dots> = q * of_int b" using bpos by (simp add: q_def)
    also have "\<dots> \<le> q * 2 powi bitlen b"
      using bitlen_powi(2) [OF assms(2)] qpos by (intro mult_left_mono) simp_all
    finally show ?thesis .
  qed
  then have "2 powi (bitlen a - 1) * 2 powi (k0 - bitlen b) \<le> q * 2 powi bitlen b * 2 powi (k0 - bitlen b)"
    by (intro mult_right_mono) simp_all
  moreover have "(2 :: rat) powi (bitlen a - 1) * 2 powi (k0 - bitlen b) = 2 ^ 52"
  proof -
    have e: "bitlen a - 1 + (k0 - bitlen b) = 52" by (simp add: k0_def)
    have "(2 :: rat) powi (bitlen a - 1) * 2 powi (k0 - bitlen b)
        = 2 powi (bitlen a - 1 + (k0 - bitlen b))"
      using power_int_add [of "2 :: rat" "bitlen a - 1" "k0 - bitlen b"] by simp
    also have "\<dots> = 2 powi 52" by (simp only: e)
    also have "\<dots> = 2 ^ 52" by simp
    finally show ?thesis .
  qed
  moreover have "q * 2 powi bitlen b * 2 powi (k0 - bitlen b) = q * 2 powi k0"
  proof -
    have e: "bitlen b + (k0 - bitlen b) = k0" by simp
    have "(2 :: rat) powi bitlen b * 2 powi (k0 - bitlen b) = 2 powi k0"
      using power_int_add [of "2 :: rat" "bitlen b" "k0 - bitlen b"] by simp
    then show ?thesis by (simp add: mult.assoc)
  qed
  ultimately have v0: "2 ^ 52 \<le> q * 2 powi k0" by simp
  have d0: "0 < snd (scaled a b k0)" using assms(2) by (rule scaled_value)
  have cond: "2 ^ 53 * snd (scaled a b k0) \<le> fst (scaled a b k0) \<longleftrightarrow> 2 ^ 53 \<le> q * 2 powi k0"
  proof -
    have "(2 ^ 53 * snd (scaled a b k0) \<le> fst (scaled a b k0))
        \<longleftrightarrow> ((of_int (2 ^ 53 * snd (scaled a b k0)) :: rat) \<le> of_int (fst (scaled a b k0)))"
      by (simp only: of_int_le_iff)
    also have "\<dots> \<longleftrightarrow> ((2 :: rat) ^ 53 \<le> of_int (fst (scaled a b k0)) / of_int (snd (scaled a b k0)))"
      using d0 by (simp add: field_simps)
    also have "\<dots> \<longleftrightarrow> 2 ^ 53 \<le> q * 2 powi k0"
      by (simp only: scaled_value(2) [OF assms(2)] q_def)
    finally show ?thesis .
  qed
  have vlow: "2 ^ 52 \<le> v"
  proof (cases "2 ^ 53 * snd (scaled a b k0) \<le> fst (scaled a b k0)")
    case True
    then have "k = k0 - 1" by (simp add: k_def)
    then have "v = q * 2 powi k0 / 2"
      by (simp add: v_def power_int_diff)
    with True cond show ?thesis by simp
  next
    case False
    then have "k = k0" by (simp add: k_def)
    with v0 show ?thesis by (simp add: v_def)
  qed
  have dpos: "0 < d" unfolding d_def using assms(2) by (rule scaled_value)
  have nd: "(of_int n / of_int d :: rat) = v"
    unfolding n_def d_def v_def q_def using assms(2) by (rule scaled_value)
  have near: "\<bar>of_int m - v\<bar> \<le> 1 / 2"
    using round_half_even_near [OF dpos, of n] by (simp add: m_def nd)
  have "1 \<le> v" using vlow by simp
  then have "(0 :: rat) < of_int m" using near by linarith
  then have mpos: "0 < m" by simp
  then show "0 < fst (round_pos a b)" by (simp add: rp)
  have s: "(0 :: rat) < 2 powi (- k)" by simp
  have qv: "q = v * 2 powi (- k)"
    by (simp add: v_def power_int_minus)
  have "\<bar>dval (round_pos a b) - q\<bar> = \<bar>of_int m - v\<bar> * 2 powi (- k)"
  proof -
    have "dval (round_pos a b) - q = (of_int m - v) * 2 powi (- k)"
      by (simp add: rp dval_def qv [symmetric] algebra_simps)
    then show ?thesis using s by (simp add: abs_mult)
  qed
  also have "\<dots> \<le> (1 / 2) * 2 powi (- k)"
    using near s by (intro mult_right_mono) simp_all
  also have "\<dots> = 2 ^ 52 * 2 powi (- k) / 2 ^ 53" by simp
  also have "\<dots> \<le> v * 2 powi (- k) / 2 ^ 53"
    using vlow s by (intro divide_right_mono mult_right_mono) simp_all
  also have "\<dots> = q / 2 ^ 53" by (simp add: qv [symmetric])
  finally show "\<bar>dval (round_pos a b) - of_int a / of_int b\<bar> \<le> (of_int a / of_int b) / 2 ^ 53"
    by (simp add: q_def)
qed

lemma math_round_floor: "math_round d = \<lfloor>dval d + 1 / 2\<rfloor>"
proof (cases "0 \<le> snd d")
  case True
  define z where "z = fst d * 2 ^ nat (snd d)"
  from True have "dval d = of_int z"
    by (simp add: dval_def power_int_def z_def)
  then have "\<lfloor>dval d + 1 / 2\<rfloor> = z"
    by (intro floor_unique) simp_all
  with True show ?thesis by (simp add: math_round_def z_def)
next
  case False
  define D :: int where "D = 2 ^ nat (- snd d)"
  have Dpos: "0 < D" by (simp add: D_def)
  have "dval d = of_int (fst d) / of_int D"
    using False by (simp add: dval_def power_int_def D_def field_simps)
  then have "dval d + 1 / 2 = of_int (2 * fst d + D) / of_int (2 * D)"
    using Dpos by (simp add: field_simps)
  then have "\<lfloor>dval d + 1 / 2\<rfloor> = (2 * fst d + D) div (2 * D)"
    by (simp only: floor_divide_of_int_eq)
  with False show ?thesis by (simp add: math_round_def D_def)
qed

text \<open>
  For \<open>0 \<le> s \<le> t\<close> the double \<^verbatim>\<open>(s / t) * 100\<close> is within \<open>2 ^ -44\<close> of the exact
  \<open>100 * s / t\<close>.
\<close>

lemma product_near:
  fixes s t :: int
  assumes "0 \<le> s" "s \<le> t" "0 < t"
  shows "\<bar>dval (fmul (fdiv (s, 0) (t, 0)) (100, 0)) - 100 * of_int s / of_int t\<bar> \<le> 1 / 2 ^ 44"
proof (cases "s = 0")
  case True
  then show ?thesis by (simp add: fmul_def fdiv_def fround_def dval_def)
next
  case False
  with assms have spos: "0 < s" by simp
  define q :: rat where "q = of_int s / of_int t"
  define m1 where "m1 = fst (round_pos s t)"
  define x1 where "x1 = snd (round_pos s t)"
  define v1 :: rat where "v1 = dval (round_pos s t)"
  have q: "0 < q" "q \<le> 1" using assms spos by (simp_all add: q_def)
  have m1: "0 < m1" unfolding m1_def using spos assms(3) by (rule round_pos_near)
  have n1: "\<bar>v1 - q\<bar> \<le> q / 2 ^ 53"
    unfolding v1_def q_def using spos assms(3) by (rule round_pos_near)
  have d1: "fdiv (s, 0) (t, 0) = (m1, x1)"
    using spos assms(3) by (simp add: fdiv_def fround_def m1_def x1_def)
  have v1: "v1 = of_int m1 * 2 powi x1"
    by (simp add: v1_def dval_def m1_def x1_def)
  have m100: "0 < m1 * 100" using m1 by simp
  define w :: rat where "w = dval (fmul (m1, x1) (100, 0))"
  have w: "w = dval (round_pos (m1 * 100) 1) * 2 powi x1"
  proof -
    have "fmul (m1, x1) (100, 0)
        = (fst (round_pos (m1 * 100) 1), snd (round_pos (m1 * 100) 1) + x1)"
      using m100 by (simp add: fmul_def fround_def)
    then show ?thesis
      using power_int_add [of "2 :: rat" "snd (round_pos (m1 * 100) 1)" x1]
      by (simp add: w_def dval_def mult.assoc)
  qed
  have n2: "\<bar>dval (round_pos (m1 * 100) 1) - of_int (m1 * 100)\<bar> \<le> of_int (m1 * 100) / 2 ^ 53"
    using round_pos_near(2) [OF m100, of 1] by simp
  have xpos: "(0 :: rat) < 2 powi x1" by simp
  have "\<bar>w - 100 * v1\<bar> = \<bar>dval (round_pos (m1 * 100) 1) - of_int (m1 * 100)\<bar> * 2 powi x1"
  proof -
    have "w - 100 * v1 = (dval (round_pos (m1 * 100) 1) - of_int (m1 * 100)) * 2 powi x1"
      by (simp add: w v1 algebra_simps)
    then show ?thesis using xpos by (simp add: abs_mult)
  qed
  also have "\<dots> \<le> of_int (m1 * 100) / 2 ^ 53 * 2 powi x1"
    using n2 xpos by (intro mult_right_mono) simp_all
  also have "\<dots> = 100 * v1 / 2 ^ 53" by (simp add: v1)
  finally have n3: "\<bar>w - 100 * v1\<bar> \<le> 100 * v1 / 2 ^ 53" .
  have "q / 2 ^ 53 \<le> 1" using q by (simp add: field_simps)
  with n1 q have v1le: "v1 \<le> 2" by linarith
  have a: "\<bar>w - 100 * v1\<bar> \<le> 200 / 2 ^ 53"
  proof -
    have "100 * v1 / 2 ^ 53 \<le> 100 * 2 / 2 ^ 53"
      using v1le by (intro divide_right_mono mult_left_mono) simp_all
    with n3 show ?thesis by simp
  qed
  have b: "\<bar>100 * v1 - 100 * q\<bar> \<le> 100 / 2 ^ 53"
  proof -
    have "q / 2 ^ 53 \<le> 1 / 2 ^ 53"
      using q by (intro divide_right_mono) simp_all
    with n1 have "\<bar>v1 - q\<bar> \<le> 1 / 2 ^ 53" by linarith
    then have "100 * \<bar>v1 - q\<bar> \<le> 100 * (1 / 2 ^ 53)"
      by (intro mult_left_mono) simp_all
    moreover have "\<bar>100 * v1 - 100 * q\<bar> = 100 * \<bar>v1 - q\<bar>"
    proof -
      have "100 * v1 - 100 * q = 100 * (v1 - q)" by (simp add: algebra_simps)
      then show ?thesis by (simp only: abs_mult)
    qed
    ultimately show ?thesis by simp
  qed
  have "\<bar>w - 100 * q\<bar> \<le> \<bar>w - 100 * v1\<bar> + \<bar>100 * v1 - 100 * q\<bar>" by linarith
  also have "\<dots> \<le> 200 / 2 ^ 53 + 100 / 2 ^ 53" using a b by linarith
  also have "\<dots> \<le> 1 / 2 ^ 44" by simp
  finally show ?thesis by (simp add: w_def d1 q_def)
qed

section \<open>The chat send (C1, C6)\<close>

text \<open>
  Claim C1 says that a chat send is bound to a 15000 ms deadline: when the service takes
  longer, the call is abandoned, one assistant message with the fixed timeout text is
  appended, the timeout warning is set and the controller is idle again. The code starts
  the 15000 ms timer but connects its abort controller to nothing. Evaluated on the send
  of the input \<^verbatim>\<open>Explain the key concepts\<close> at clock 1000 with a service that answers after
  20000 ms: the timer has fired, yet the handler waits the 20000 ms and appends the
  service's answer (at clock 21000); the timeout text is not in the history and no
  warning is set.
\<close>

theorem slow_answer_is_appended_after_deadline:
  "chat_deadline < latency slow_answer
   \<and> abort_fired (latency slow_answer) (reply slow_answer)
   \<and> messages (handleSendMessage chat_ready 1000 slow_answer) =
       [\<lparr>msg_id = ''1000'', role = User, content = ''Explain the key concepts'',
         timestamp = 1000, difficulty = None, sources = None\<rparr>,
        \<lparr>msg_id = ''21001'', role = Assistant, content = ''A linear equation has degree one.'',
         timestamp = 21000, difficulty = Some ''easy'', sources = Some []\<rparr>]
   \<and> timeout_text \<notin> set (map content (messages (handleSendMessage chat_ready 1000 slow_answer)))
   \<and> lp_error (handleSendMessage chat_ready 1000 slow_answer) = None
   \<and> \<not> isLoading (handleSendMessage chat_ready 1000 slow_answer)"
  by (simp add: chat_defs chat_demo slow_answer_def chat_deadline_def abort_fired_def
      toString.simps)

text \<open>
  A send that passes the guard is its first part followed by its second part at the
  moment the request settles.
\<close>

lemma send_in_two_parts:
  assumes "\<not> send_blocked s"
  shows "handleSendMessage s now b
       = handleSendMessage_settle (now + fst (api_post b)) (snd (api_post b))
           (handleSendMessage_begin now s)"
proof (cases "api_post b")
  case (Pair waited settled)
  with assms show ?thesis
    by (simp add: handleSendMessage_def handleSendMessage_begin_def
        handleSendMessage_settle_def ask_def Let_def)
qed

text \<open>
  Claim C6: for every chat send (a submission of the form, which the page allows only
  while no response is pending) with non-blank input and a present student, subject and
  chapter, the user's message with the input as content is appended at once and the page
  awaits the response. While it does, no further send can start and the only event that
  changes the history is the settling of the request, which appends exactly one
  assistant message (the answer on success, the timeout text or the connection text on
  failure) and ends the wait; when nothing is awaited no assistant message can arrive.
  Run to completion, the send leaves the history extended by the user's message followed
  by that one assistant message.
\<close>

theorem send_appends_user_then_one_assistant:
  assumes "chat_fire now SubmitForm s = Some s1"
    and "trim (input s) \<noteq> []" "lp_student s \<noteq> None" "truthy (subjectId s)"
    and "truthy (lp_chapterId s)"
  shows "(\<exists>u. messages s1 = messages s @ [u] \<and> role u = User \<and> content u = input s)
       \<and> isLoading s1
       \<and> (isLoading p \<and> chat_fire t e p = Some p' \<longrightarrow>
            (\<exists>settled a. e = AskSettled settled \<and> messages p' = messages p @ [a]
                \<and> role a = Assistant
                \<and> content a =
                    (case settled of
                       Resolved response \<Rightarrow> answer response
                     | Rejected err \<Rightarrow> if isTimeout err then timeout_text else connection_text)
                \<and> \<not> isLoading p')
            \<or> (messages p' = messages p \<and> isLoading p'))
       \<and> (isLoading p \<longrightarrow>
            chat_fire t SubmitForm p = None
            \<and> chat_fire t (AskSettled oc) p = Some (handleSendMessage_settle t oc p))
       \<and> (\<not> isLoading p \<longrightarrow>
            chat_fire t (AskSettled oc) p = None
            \<and> chat_fire t SubmitForm p = Some (handleSendMessage_begin t p))
       \<and> handleSendMessage s now b
            = handleSendMessage_settle (now + fst (api_post b)) (snd (api_post b)) s1
       \<and> (\<exists>u a. messages (handleSendMessage s now b) = messages s @ [u, a]
              \<and> role u = User \<and> content u = input s \<and> role a = Assistant
              \<and> assistant_messages (messages (handleSendMessage s now b))
                   = assistant_messages (messages s) @ [a]
              \<and> \<not> isLoading (handleSendMessage s now b))"
proof -
  from assms(1) have idle: "\<not> isLoading s" and s1: "s1 = handleSendMessage_begin now s"
    by (auto simp: chat_fire_def split: if_splits)
  with assms(2-5) have nb: "\<not> send_blocked s" by (simp add: send_blocked_def)
  have A: "(\<exists>u. messages s1 = messages s @ [u] \<and> role u = User \<and> content u = input s)
      \<and> isLoading s1"
    using nb by (simp add: s1 handleSendMessage_begin_def)
  have B: "isLoading p \<and> chat_fire t e p = Some p' \<longrightarrow>
            (\<exists>settled a. e = AskSettled settled \<and> messages p' = messages p @ [a]
                \<and> role a = Assistant
                \<and> content a =
                    (case settled of
                       Resolved response \<Rightarrow> answer response
                     | Rejected err \<Rightarrow> if isTimeout err then timeout_text else connection_text)
                \<and> \<not> isLoading p')
            \<or> (messages p' = messages p \<and> isLoading p')"
  proof (cases e)
    case (AskSettled settled)
    then show ?thesis
      by (cases settled)
         (auto simp: chat_fire_def handleSendMessage_settle_def on_ask_resolved_def
               on_ask_rejected_def Let_def)
  qed (auto simp: chat_fire_def split: if_splits)
  have C: "isLoading p \<longrightarrow>
            chat_fire t SubmitForm p = None
            \<and> chat_fire t (AskSettled oc) p = Some (handleSendMessage_settle t oc p)"
    by (simp add: chat_fire_def)
  have D: "\<not> isLoading p \<longrightarrow>
            chat_fire t (AskSettled oc) p = None
            \<and> chat_fire t SubmitForm p = Some (handleSendMessage_begin t p)"
    by (simp add: chat_fire_def)
  have E: "handleSendMessage s now b
            = handleSendMessage_settle (now + fst (api_post b)) (snd (api_post b)) s1"
    unfolding s1 using nb by (rule send_in_two_parts)
  have F: "\<exists>u a. messages (handleSendMessage s now b) = messages s @ [u, a]
              \<and> role u = User \<and> content u = input s \<and> role a = Assistant
              \<and> assistant_messages (messages (handleSendMessage s now b))
                   = assistant_messages (messages s) @ [a]
              \<and> \<not> isLoading (handleSendMessage s now b)"
    using nb
    by (auto simp: handleSendMessage_def ask_def on_ask_resolved_def
        on_ask_rejected_def assistant_messages_def Let_def split: prod.splits outcome.splits)
  from A B C D E F show ?thesis by blast
qed

text \<open>
  Witness for C6: the ready page submits \<^verbatim>\<open>Explain the key concepts\<close>; the user's message
  is appended, a second submission is impossible while the answer is awaited, and the
  answer arrives as the one assistant message.
\<close>

theorem send_appends_user_then_one_assistant_witness:
  "chat_fire 1000 SubmitForm chat_ready = Some (handleSendMessage_begin 1000 chat_ready)
   \<and> trim (input chat_ready) \<noteq> [] \<and> lp_student chat_ready \<noteq> None
   \<and> truthy (subjectId chat_ready) \<and> truthy (lp_chapterId chat_ready)
   \<and> map content (messages (handleSendMessage_begin 1000 chat_ready))
       = [''Explain the key concepts'']
   \<and> isLoading (handleSendMessage_begin 1000 chat_ready)
   \<and> chat_fire 1800 SubmitForm (handleSendMessage_begin 1000 chat_ready) = None
   \<and> chat_fire 1800 (AskSettled (Resolved key_concepts)) (handleSendMessage_begin 1000 chat_ready)
       = Some (handleSendMessage_settle 1800 (Resolved key_concepts)
                 (handleSendMessage_begin 1000 chat_ready))
   \<and> map role (messages (handleSendMessage_settle 1800 (Resolved key_concepts)
                 (handleSendMessage_begin 1000 chat_ready))) = [User, Assistant]
   \<and> map content (messages (handleSendMessage_settle 1800 (Resolved key_concepts)
                 (handleSendMessage_begin 1000 chat_ready)))
       = [''Explain the key concepts'', ''A linear equation has degree one.'']"
proof -
  have f: "chat_fire 1000 SubmitForm chat_ready = Some (handleSendMessage_begin 1000 chat_ready)"
    by (simp add: chat_fire_def chat_ready_def)
  have h: "trim (input chat_ready) \<noteq> []" "lp_student chat_ready \<noteq> None"
    "truthy (subjectId chat_ready)" "truthy (lp_chapterId chat_ready)"
    by (simp_all add: chat_defs chat_demo)
  have m: "map content (messages (handleSendMessage_begin 1000 chat_ready))
       = [''Explain the key concepts'']"
    "map role (messages (handleSendMessage_settle 1800 (Resolved key_concepts)
                 (handleSendMessage_begin 1000 chat_ready))) = [User, Assistant]"
    "map content (messages (handleSendMessage_settle 1800 (Resolved key_concepts)
                 (handleSendMessage_begin 1000 chat_ready)))
       = [''Explain the key concepts'', ''A linear equation has degree one.'']"
    by (simp_all add: handleSendMessage_begin_def handleSendMessage_settle_def chat_defs chat_demo)
  from send_appends_user_then_one_assistant [OF f h,
      where p = "handleSendMessage_begin 1000 chat_ready" and t = 1800
        and oc = "Resolved key_concepts"] f h m
  show ?thesis by simp
qed

section \<open>Reaching the result (C2)\<close>

text \<open>
  Claim C2 as stated fails in its equation \<^verbatim>\<open>len(answers) == len(questions)\<close>: the submit
  button is guarded by \<^verbatim>\<open>questions.every(q => answers[q.id])\<close>, not by a comparison of
  lengths. For a generated quiz whose two questions carry the same id, one selection
  answers both; the submit button is enabled on the last question, the submission
  resolves and the result step is reached with one entry in \<^verbatim>\<open>answers\<close> for two questions.
\<close>

theorem twin_quiz_submits_with_one_answer:
  "run fresh_page twin_trace = Some twin_done \<and> step twin_done = Result
   \<and> quiz twin_done = Some quiz_twins
   \<and> length (answers twin_done) = 1 \<and> length (questions quiz_twins) = 2"
  by (simp add: page_defs demo_defs twin_a_def twin_b_def quiz_twins_def twin_trace_def
      twin_done_def)

text \<open>
  Claim C2, amended: in every reachable state, (1) the result step is entered only by a
  submission that resolves, which was in flight, and then every question of the quiz has
  an entry in \<^verbatim>\<open>answers\<close>; (2) the submit button can be clicked only on the last question
  and only when every question has a non-empty recorded answer; (3) a submission gets in
  flight only by that click. Whenever the question ids are pairwise distinct, (1) and (2)
  give \<^verbatim>\<open>len(answers) == len(questions)\<close>.
\<close>

theorem result_only_after_complete_submit:
  assumes "reachable s" "fire now e s = Some s'"
  shows "(step s' = Result \<and> step s \<noteq> Result \<longrightarrow>
            (\<exists>r. e = SubmitSettled (Resolved r))
            \<and> (\<exists>req. inflight s = Some (Submit req))
            \<and> (\<exists>qd. quiz s' = Some qd \<and> all_recorded qd s'
                  \<and> (distinct (map q_id (questions qd))
                       \<longrightarrow> length (answers s') = length (questions qd))))
       \<and> (e = ClickSubmit \<longrightarrow>
            (\<exists>qd. quiz s = Some qd \<and> isLast qd s \<and> allAnswered qd s
                  \<and> (distinct (map q_id (questions qd))
                       \<longrightarrow> length (answers s) = length (questions qd))))
       \<and> (no_submit (inflight s) \<and> \<not> no_submit (inflight s') \<longrightarrow> e = ClickSubmit)"
proof (intro conjI impI)
  assume a: "step s' = Result \<and> step s \<noteq> Result"
  with step_changes [OF assms(2)] obtain r where e: "e = SubmitSettled (Resolved r)"
    by auto
  then show "\<exists>r. e = SubmitSettled (Resolved r)" by blast
  from assms(2) e show "\<exists>req. inflight s = Some (Submit req)"
    by (auto simp: fire_def split: option.splits request.splits)
  have "reachable s'" using assms by (rule reachable.fired)
  then have inv: "page_inv s'" by (rule reachable_inv)
  with a obtain qd where qd: "quiz s' = Some qd" "session_ok qd s'" "all_recorded qd s'"
    by (auto simp: page_inv_def split: option.splits)
  from inv have d: "distinct (map fst (answers s'))" by (simp add: page_inv_def)
  have "length (answers s') = length (questions qd)" if "distinct (map q_id (questions qd))"
  proof -
    have "set (map fst (answers s')) = set (map q_id (questions qd))"
      using qd(2,3) unfolding session_ok_def all_recorded_def by blast
    from length_keys_eq [OF d this that] show ?thesis by simp
  qed
  with qd show "\<exists>qd. quiz s' = Some qd \<and> all_recorded qd s'
      \<and> (distinct (map q_id (questions qd)) \<longrightarrow> length (answers s') = length (questions qd))"
    by blast
next
  assume e: "e = ClickSubmit"
  with click_submit_enabled assms(2) obtain qd where
    qd: "step s = Quiz" "quiz s = Some qd" "isLast qd s" "allAnswered qd s"
    by blast
  from assms(1) have inv: "page_inv s" by (rule reachable_inv)
  with qd have ok: "session_ok qd s" and d: "distinct (map fst (answers s))"
    by (auto simp: page_inv_def)
  have "length (answers s) = length (questions qd)" if "distinct (map q_id (questions qd))"
  proof -
    have "set (map fst (answers s)) = set (map q_id (questions qd))"
      using ok allAnswered_recorded [OF qd(4)] unfolding session_ok_def all_recorded_def by blast
    from length_keys_eq [OF d this that] show ?thesis by simp
  qed
  with qd show "\<exists>qd. quiz s = Some qd \<and> isLast qd s \<and> allAnswered qd s
      \<and> (distinct (map q_id (questions qd)) \<longrightarrow> length (answers s) = length (questions qd))"
    by blast
next
  assume "no_submit (inflight s) \<and> \<not> no_submit (inflight s')"
  with submit_in_flight_only_by_click [OF assms(2)] show "e = ClickSubmit" by blast
qed

text \<open>
  Witness for C2: on the second and last question of the two-question quiz, with both
  questions answered, the submit click is enabled; when the submission resolves the page
  is in the result step with two answers for two questions.
\<close>

theorem result_only_after_complete_submit_witness:
  "reachable (handleSubmitQuiz_begin 91000 complete_page)
   \<and> fire 92000 (SubmitSettled (Resolved result_4_of_5)) (handleSubmitQuiz_begin 91000 complete_page)
       = Some result_page
   \<and> step result_page = Result
   \<and> quiz result_page = Some quiz_two
   \<and> length (answers result_page) = length (questions quiz_two)
   \<and> reachable complete_page
   \<and> fire 91000 ClickSubmit complete_page = Some (handleSubmitQuiz_begin 91000 complete_page)
   \<and> isLast quiz_two complete_page \<and> allAnswered quiz_two complete_page"
proof -
  have f1: "fire 91000 ClickSubmit complete_page = Some (handleSubmitQuiz_begin 91000 complete_page)"
    by (simp add: page_defs demo_defs demo_pages)
  have r1: "reachable (handleSubmitQuiz_begin 91000 complete_page)"
    using reachable_complete f1 by (rule reachable.fired)
  have f2: "fire 92000 (SubmitSettled (Resolved result_4_of_5))
      (handleSubmitQuiz_begin 91000 complete_page) = Some result_page"
    by (simp add: page_defs demo_defs demo_pages)
  have d: "distinct (map q_id (questions quiz_two))"
    by (simp add: demo_defs)
  have st: "step result_page = Result" "quiz result_page = Some quiz_two"
    "step (handleSubmitQuiz_begin 91000 complete_page) \<noteq> Result"
    by (simp_all add: page_defs demo_defs demo_pages)
  from result_only_after_complete_submit [OF r1 f2] st d
  have "length (answers result_page) = length (questions quiz_two)" by auto
  moreover from result_only_after_complete_submit [OF reachable_complete f1]
  have "isLast quiz_two complete_page \<and> allAnswered quiz_two complete_page"
    by (auto simp: demo_pages)
  ultimately show ?thesis using f1 r1 f2 st reachable_complete by simp
qed

section \<open>The time sent with a submission (C3)\<close>

text \<open>
  Claim C3 says that \<^verbatim>\<open>time_taken\<close> is the time since the quiz started, in seconds. The
  code subtracts \<^verbatim>\<open>startTime\<close>, which is set once when the page is mounted and never
  again. Evaluated on a visit mounted at clock 1000 whose quiz starts at 61000 and is
  submitted at 91000: the request carries 90 seconds, the time since the mount; the time
  since the quiz started is 30 seconds.
\<close>

theorem time_taken_counts_from_mount:
  "startTime fresh_page = 1000
   \<and> quiz_started_at fresh_page submit_trace None = Some 61000
   \<and> map_option inflight (run fresh_page submit_trace) =
       Some (Some (Submit \<lparr>s_student_id = Some ''s1'', s_quiz_id = ''quiz-1'',
                            s_answers = [(3, ''D''), (4, ''A'')], time_taken = 90\<rparr>))
   \<and> elapsed_seconds 91000 1000 = 90
   \<and> elapsed_seconds 91000 61000 = 30"
  by (simp add: page_defs demo_defs submit_trace_def)

section \<open>Starting a quiz (C4)\<close>



section \<open>A failed submission (C5)\<close>

text \<open>
  Claim C5 says that after a failed submission the session stays active, the answers are
  kept, and the surfaced error states that the answers were not saved. The code keeps the
  step, the quiz, the index and the answers and stores the message in the error cell,
  but does not surface it: the quiz view renders no error (only the setup view has the
  banner), so after the failure nothing is shown, and in no state the page can reach
  does the banner show this message.
\<close>

theorem submit_failure_sets_unrendered_error:
  assumes "step s = Quiz" "quiz s \<noteq> None"
  shows "step (handleSubmitQuiz s now (Rejected err)) = Quiz
       \<and> answers (handleSubmitQuiz s now (Rejected err)) = answers s
       \<and> quiz (handleSubmitQuiz s now (Rejected err)) = quiz s
       \<and> currentQ (handleSubmitQuiz s now (Rejected err)) = currentQ s
       \<and> result (handleSubmitQuiz s now (Rejected err)) = result s
       \<and> \<not> loading (handleSubmitQuiz s now (Rejected err))
       \<and> error (handleSubmitQuiz s now (Rejected err))
           = Some ''Failed to submit quiz. Your answers were not saved.''
       \<and> error_banner (handleSubmitQuiz s now (Rejected err)) = None
       \<and> (reachable p \<longrightarrow>
            error_banner p \<noteq> Some ''Failed to submit quiz. Your answers were not saved.'')"
proof -
  have "reachable p \<longrightarrow>
      error_banner p \<noteq> Some ''Failed to submit quiz. Your answers were not saved.''"
  proof
    assume "reachable p"
    then have "error_inv p" by (rule reachable_error_inv)
    then show "error_banner p \<noteq> Some ''Failed to submit quiz. Your answers were not saved.''"
      by (auto simp: error_inv_def error_banner_def)
  qed
  with assms show ?thesis
    by (auto simp: handleSubmitQuiz_def handleSubmitQuiz_begin_def handleSubmitQuiz_settle_def
        error_banner_def)
qed

text \<open>
  Witness for C5: the fully answered two-question quiz, submitted at clock 91000 while
  the connection is lost. The page reached keeps both answers and holds the message in
  its error cell, and its banner is empty.
\<close>

theorem submit_failure_sets_unrendered_error_witness:
  "step complete_page = Quiz \<and> quiz complete_page \<noteq> None
   \<and> handleSubmitQuiz complete_page 91000 (Rejected connection_lost) = failed_page
   \<and> reachable failed_page
   \<and> step failed_page = Quiz
   \<and> answers failed_page = [(3, ''D''), (4, ''A'')]
   \<and> error failed_page = Some ''Failed to submit quiz. Your answers were not saved.''
   \<and> error_banner failed_page = None"
proof -
  have h: "step complete_page = Quiz" "quiz complete_page \<noteq> None"
    by (simp_all add: demo_pages)
  have e: "handleSubmitQuiz complete_page 91000 (Rejected connection_lost) = failed_page"
    by (simp add: handleSubmitQuiz_def page_defs demo_defs demo_pages failed_page_def)
  have "run complete_page [(91000, ClickSubmit), (92000, SubmitSettled (Rejected connection_lost))]
      = Some failed_page"
    by (simp add: page_defs demo_defs demo_pages failed_page_def)
  with reachable_complete have r: "reachable failed_page" by (rule reachable_run)
  have a: "answers complete_page = [(3, ''D''), (4, ''A'')]"
    by (simp add: demo_pages)
  from submit_failure_sets_unrendered_error [OF h, of 91000 connection_lost failed_page] h e r a
  show ?thesis by simp
qed

section \<open>Selecting answers (C7)\<close>

text \<open>
  Claim C7: selecting an answer for a question id twice leaves the second option as the
  recorded one; the resulting \<^verbatim>\<open>answers\<close> are those of the second selection alone, so their
  number does not grow with the repetition; and in every reachable state of the quiz step
  the number of recorded answers is at most the number of questions.
\<close>

theorem select_answer_overwrites:
  "map_of (answers (handleSelectAnswer qid d (handleSelectAnswer qid b s))) qid = Some d
   \<and> answers (handleSelectAnswer qid d (handleSelectAnswer qid b s))
       = answers (handleSelectAnswer qid d s)
   \<and> length (answers (handleSelectAnswer qid d (handleSelectAnswer qid b s)))
       = length (answers (handleSelectAnswer qid b s))
   \<and> (reachable p \<and> step p = Quiz \<longrightarrow>
        (\<exists>qd. quiz p = Some qd \<and> length (answers p) \<le> length (questions qd)))"
proof (intro conjI impI)
  show "map_of (answers (handleSelectAnswer qid d (handleSelectAnswer qid b s))) qid = Some d"
    by (simp add: handleSelectAnswer_def update_conv')
  show "answers (handleSelectAnswer qid d (handleSelectAnswer qid b s))
      = answers (handleSelectAnswer qid d s)"
    by (simp add: handleSelectAnswer_def)
  have "map fst (AList.update qid d (AList.update qid b (answers s)))
      = map fst (AList.update qid b (answers s))"
    by (simp add: update_keys keys_update)
  then have "length (map fst (AList.update qid d (AList.update qid b (answers s))))
      = length (map fst (AList.update qid b (answers s)))"
    by (rule arg_cong)
  then show "length (answers (handleSelectAnswer qid d (handleSelectAnswer qid b s)))
      = length (answers (handleSelectAnswer qid b s))"
    by (simp add: handleSelectAnswer_def del: update_last)
next
  assume a: "reachable p \<and> step p = Quiz"
  then have inv: "page_inv p" by (auto intro: reachable_inv)
  with a obtain qd where qd: "quiz p = Some qd" "session_ok qd p"
    by (auto simp: page_inv_def split: option.splits)
  from inv have "distinct (map fst (answers p))" by (simp add: page_inv_def)
  moreover from qd(2) have "set (map fst (answers p)) \<subseteq> set (map q_id (questions qd))"
    by (simp add: session_ok_def)
  ultimately have "length (answers p) \<le> length (map q_id (questions qd))"
    by (rule length_keys_le)
  with qd(1) show "\<exists>qd. quiz p = Some qd \<and> length (answers p) \<le> length (questions qd)"
    by simp
qed

text \<open>
  Witness for C7 (scenario B): on question id 3, selecting B and then D records D only,
  and the page so reached has one answer for two questions.
\<close>

theorem select_answer_overwrites_witness:
  "map_of (answers (handleSelectAnswer 3 ''D'' (handleSelectAnswer 3 ''B'' first_question_page))) 3
     = Some ''D''
   \<and> answers (handleSelectAnswer 3 ''D'' (handleSelectAnswer 3 ''B'' first_question_page))
     = [(3, ''D'')]
   \<and> reachable answered_page \<and> step answered_page = Quiz
   \<and> length (answers answered_page) \<le> length (questions quiz_two)"
  using select_answer_overwrites [of 3 "''D''" "''B''" first_question_page answered_page]
    reachable_answered
  by (simp add: demo_pages demo_defs page_defs)

section \<open>The result figures (C8)\<close>

text \<open>
  Claim C8 as stated fails in both parts. The percentage is computed in doubles as
  \<^verbatim>\<open>Math.round((score / total) * 100)\<close>: for 23 out of 40 the product is just below 57.5
  and 57 is displayed, where \<^verbatim>\<open>round(100 * score / total)\<close> is 58. The threshold is applied
  to the rounded percentage: 25 out of 42 is displayed as 60 and gets the good treatment
  although 25/42 is below 0.6.
\<close>

theorem rounded_in_doubles_and_good_at_60:
  "0 \<le> score result_23_of_40 \<and> score result_23_of_40 \<le> total_n result_23_of_40
   \<and> 0 < total_n result_23_of_40
   \<and> percentage result_23_of_40 = 57
   \<and> round (100 * of_int (score result_23_of_40) / of_int (total_n result_23_of_40) :: rat) = 58
   \<and> 0 \<le> score result_25_of_42 \<and> score result_25_of_42 \<le> total_n result_25_of_42
   \<and> 0 < total_n result_25_of_42
   \<and> isGood result_25_of_42
   \<and> \<not> (6 / 10 \<le> (of_int (score result_25_of_42) / of_int (total_n result_25_of_42) :: rat))"
  by (simp add: result_23_of_40_def result_25_of_42_def isGood_def double_defs round_def)

text \<open>
  Claim C8, amended: for a result with \<^verbatim>\<open>0 <= score <= total\<close> and \<^verbatim>\<open>0 < total < 2^53\<close>, the
  displayed percentage differs from the exact \<^verbatim>\<open>100 * score / total\<close> by at most
  \<open>1/2 + 2 ^ -44\<close>, and it equals \<^verbatim>\<open>round(100 * score / total)\<close> whenever the exact value
  is not within \<open>2 ^ -44\<close> of a half-integer. The good treatment is shown exactly when
  the displayed percentage is at least 60: always when \<^verbatim>\<open>score / total >= 0.6\<close>, and only
  when \<^verbatim>\<open>score / total >= 0.595 - 2 ^ -44\<close>.
\<close>

theorem percentage_within_half_of_exact:
  assumes "0 \<le> score r" "score r \<le> total_n r" "0 < total_n r" "total_n r < 2 ^ 53"
  shows "\<bar>of_int (percentage r) - (100 * of_int (score r) / of_int (total_n r) :: rat)\<bar>
           \<le> 1 / 2 + 1 / 2 ^ 44
       \<and> (\<lfloor>(100 * of_int (score r) / of_int (total_n r) :: rat) + 1 / 2 - 1 / 2 ^ 44\<rfloor>
            = \<lfloor>(100 * of_int (score r) / of_int (total_n r) :: rat) + 1 / 2 + 1 / 2 ^ 44\<rfloor>
          \<longrightarrow> percentage r = round (100 * of_int (score r) / of_int (total_n r) :: rat))
       \<and> (isGood r \<longleftrightarrow> 60 \<le> percentage r)
       \<and> ((6 / 10 :: rat) \<le> of_int (score r) / of_int (total_n r) \<longrightarrow> isGood r)
       \<and> (isGood r \<longrightarrow> (119 / 200 - 1 / 2 ^ 44 :: rat) \<le> of_int (score r) / of_int (total_n r))"
proof -
  define y :: rat where "y = 100 * of_int (score r) / of_int (total_n r)"
  define x :: rat where "x = dval (fmul (fdiv (score r, 0) (total_n r, 0)) (100, 0))"
  define \<delta> :: rat where "\<delta> = 1 / 2 ^ 44"
  have near: "\<bar>x - y\<bar> \<le> \<delta>"
    unfolding x_def y_def \<delta>_def using assms(1-3) by (rule product_near)
  have p: "percentage r = \<lfloor>x + 1 / 2\<rfloor>"
    by (simp add: percentage_def math_round_floor x_def)
  have tpos: "(0 :: rat) < of_int (total_n r)" using assms(3) by simp
  have q: "of_int (score r) / of_int (total_n r) = y / 100" by (simp add: y_def)
  have A: "\<bar>of_int (percentage r) - y\<bar> \<le> 1 / 2 + \<delta>"
  proof -
    have "of_int \<lfloor>x + 1 / 2\<rfloor> \<le> x + 1 / 2" "x + 1 / 2 < of_int \<lfloor>x + 1 / 2\<rfloor> + 1"
      by linarith+
    with near show ?thesis unfolding p by linarith
  qed
  have B: "\<lfloor>y + 1 / 2 - \<delta>\<rfloor> = \<lfloor>y + 1 / 2 + \<delta>\<rfloor> \<longrightarrow> percentage r = round y"
  proof
    assume e: "\<lfloor>y + 1 / 2 - \<delta>\<rfloor> = \<lfloor>y + 1 / 2 + \<delta>\<rfloor>"
    have d: "0 \<le> \<delta>" by (simp add: \<delta>_def)
    have "\<lfloor>y + 1 / 2 - \<delta>\<rfloor> \<le> \<lfloor>x + 1 / 2\<rfloor>" "\<lfloor>x + 1 / 2\<rfloor> \<le> \<lfloor>y + 1 / 2 + \<delta>\<rfloor>"
      using near by (intro floor_mono; linarith)+
    moreover have "\<lfloor>y + 1 / 2 - \<delta>\<rfloor> \<le> \<lfloor>y + 1 / 2\<rfloor>" "\<lfloor>y + 1 / 2\<rfloor> \<le> \<lfloor>y + 1 / 2 + \<delta>\<rfloor>"
      using d by (intro floor_mono; linarith)+
    ultimately show "percentage r = round y"
      using e unfolding p round_def by linarith
  qed
  have C: "isGood r \<longleftrightarrow> 60 \<le> percentage r" by (simp add: isGood_def)
  have D: "(6 / 10 :: rat) \<le> of_int (score r) / of_int (total_n r) \<longrightarrow> isGood r"
  proof
    assume "(6 / 10 :: rat) \<le> of_int (score r) / of_int (total_n r)"
    then have "60 \<le> y" unfolding q by simp
    moreover have "\<delta> \<le> 1 / 2" by (simp add: \<delta>_def)
    ultimately have "of_int 60 \<le> x + 1 / 2" using near by (simp; linarith)
    then have "60 \<le> \<lfloor>x + 1 / 2\<rfloor>" by (simp only: le_floor_iff)
    then show "isGood r" by (simp add: isGood_def p)
  qed
  have E: "isGood r \<longrightarrow> (119 / 200 - 1 / 2 ^ 44 :: rat) \<le> of_int (score r) / of_int (total_n r)"
  proof
    assume "isGood r"
    then have "60 \<le> \<lfloor>x + 1 / 2\<rfloor>" by (simp add: isGood_def p)
    then have "of_int 60 \<le> x + 1 / 2" by (simp only: le_floor_iff)
    then have "119 / 2 - \<delta> \<le> y" using near by (simp; linarith)
    then have "119 / 200 - \<delta> / 100 \<le> y / 100" by simp
    moreover have "\<delta> / 100 \<le> \<delta>" by (simp add: \<delta>_def)
    ultimately show "(119 / 200 - 1 / 2 ^ 44 :: rat) \<le> of_int (score r) / of_int (total_n r)"
      unfolding q \<delta>_def by linarith
  qed
  from A B C D E show ?thesis unfolding y_def \<delta>_def by blast
qed

text \<open>
  Witness for C8 (scenario D): 4 out of 5 is displayed as 80 percent, with the good
  treatment.
\<close>

theorem percentage_within_half_of_exact_witness:
  "0 \<le> score result_4_of_5 \<and> score result_4_of_5 \<le> total_n result_4_of_5
   \<and> 0 < total_n result_4_of_5 \<and> total_n result_4_of_5 < 2 ^ 53
   \<and> percentage result_4_of_5 = 80 \<and> isGood result_4_of_5"
proof -
  have h: "0 \<le> score result_4_of_5" "score result_4_of_5 \<le> total_n result_4_of_5"
    "0 < total_n result_4_of_5" "total_n result_4_of_5 < 2 ^ 53"
    by (simp_all add: result_4_of_5_def)
  have f: "(6 / 10 :: rat) \<le> of_int (score result_4_of_5) / of_int (total_n result_4_of_5)"
    by (simp add: result_4_of_5_def)
  have p: "percentage result_4_of_5 = 80"
    by (simp add: result_4_of_5_def double_defs)
  from percentage_within_half_of_exact [OF h] f h p show ?thesis by simp
qed

section \<open>Navigation between questions (C9)\<close>

text \<open>
  Claim C9: in every reachable state of the quiz step there is a current question and the
  index lies in \<^verbatim>\<open>[0, len(questions))\<close>. \<^verbatim>\<open>Next\<close> happens exactly when the current question
  is not the last and has a non-empty recorded answer, and then adds one to the index;
  \<^verbatim>\<open>Previous\<close> happens exactly when the index is positive, and then subtracts one. After
  any event that stays in the quiz step the index is in range again, and every event
  other than these two leaves the index as it is.
\<close>

theorem currentQ_stays_in_range:
  assumes "reachable s" "step s = Quiz"
  shows "\<exists>qd q. quiz s = Some qd \<and> current_question qd s = Some q
           \<and> 0 \<le> currentQ s \<and> currentQ s < int (length (questions qd))
           \<and> fire now ClickNext s
               = (if \<not> isLast qd s \<and> truthy (map_of (answers s) (q_id q))
                  then Some (s\<lparr>currentQ := currentQ s + 1\<rparr>) else None)
           \<and> fire now ClickPrevious s
               = (if 0 < currentQ s then Some (s\<lparr>currentQ := currentQ s - 1\<rparr>) else None)
           \<and> (fire now e s = Some s' \<longrightarrow>
                (step s' = Quiz \<longrightarrow>
                   (\<exists>qd'. quiz s' = Some qd' \<and> 0 \<le> currentQ s'
                       \<and> currentQ s' < int (length (questions qd'))))
                \<and> (e \<noteq> ClickNext \<and> e \<noteq> ClickPrevious \<longrightarrow> currentQ s' = currentQ s))"
proof -
  from assms(1) have inv: "page_inv s" by (rule reachable_inv)
  with assms(2) obtain qd where qd: "quiz s = Some qd" "session_ok qd s"
    "no_generate (inflight s)"
    by (auto simp: page_inv_def split: option.splits)
  from qd(2) have rng: "0 \<le> currentQ s" "currentQ s < int (length (questions qd))"
    by (simp_all add: session_ok_def)
  then obtain q where q: "current_question qd s = Some q"
    by (simp add: current_question_def)
  have N: "fire now ClickNext s
      = (if \<not> isLast qd s \<and> truthy (map_of (answers s) (q_id q))
         then Some (s\<lparr>currentQ := currentQ s + 1\<rparr>) else None)"
    using assms(2) qd(1) q by (simp add: fire_def click_def quiz_view_def)
  have P: "fire now ClickPrevious s
      = (if 0 < currentQ s then Some (s\<lparr>currentQ := currentQ s - 1\<rparr>) else None)"
    using assms(2) qd(1) q by (simp add: fire_def click_def quiz_view_def)
  have R: "fire now e s = Some s' \<longrightarrow>
      (step s' = Quiz \<longrightarrow>
         (\<exists>qd'. quiz s' = Some qd' \<and> 0 \<le> currentQ s'
             \<and> currentQ s' < int (length (questions qd'))))
      \<and> (e \<noteq> ClickNext \<and> e \<noteq> ClickPrevious \<longrightarrow> currentQ s' = currentQ s)"
  proof
    assume f: "fire now e s = Some s'"
    have "reachable s'" using assms(1) f by (rule reachable.fired)
    then have inv': "page_inv s'" by (rule reachable_inv)
    have B: "step s' = Quiz \<longrightarrow>
        (\<exists>qd'. quiz s' = Some qd' \<and> 0 \<le> currentQ s' \<and> currentQ s' < int (length (questions qd')))"
      using inv' by (auto simp: page_inv_def session_ok_def split: option.splits)
    have E: "e \<noteq> ClickNext \<and> e \<noteq> ClickPrevious \<longrightarrow> currentQ s' = currentQ s"
    proof (cases e)
      case (GenerateSettled oc)
      with f qd(3) show ?thesis
        by (auto simp: fire_def no_generate_def split: option.splits request.splits)
    next
      case (SubmitSettled oc)
      with f show ?thesis
        by (cases oc)
           (auto simp: fire_def handleSubmitQuiz_settle_def split: option.splits request.splits)
    qed (use assms(2) f qd(1) in \<open>auto simp: fire_def click_def quiz_view_def
          handleSelectAnswer_def handleSubmitQuiz_begin_def split: option.splits if_splits\<close>)
    from B E show "(step s' = Quiz \<longrightarrow>
         (\<exists>qd'. quiz s' = Some qd' \<and> 0 \<le> currentQ s'
             \<and> currentQ s' < int (length (questions qd'))))
      \<and> (e \<noteq> ClickNext \<and> e \<noteq> ClickPrevious \<longrightarrow> currentQ s' = currentQ s)"
      by (rule conjI)
  qed
  from qd(1) q rng N P R show ?thesis by blast
qed

text \<open>
  Witness for C9: with the first of two questions answered, \<^verbatim>\<open>Next\<close> moves the index from
  0 to 1 and \<^verbatim>\<open>Previous\<close> moves it back; \<^verbatim>\<open>Previous\<close> is not offered on the first question,
  nor \<^verbatim>\<open>Next\<close> on the last.
\<close>

theorem currentQ_stays_in_range_witness:
  "reachable answered_page \<and> step answered_page = Quiz
   \<and> currentQ answered_page = 0
   \<and> fire 75000 ClickNext answered_page = Some second_question_page
   \<and> fire 75000 ClickPrevious answered_page = None
   \<and> reachable second_question_page \<and> step second_question_page = Quiz
   \<and> currentQ second_question_page = 1
   \<and> fire 76000 ClickPrevious second_question_page = Some answered_page
   \<and> fire 76000 ClickNext second_question_page = None"
proof -
  have st: "step answered_page = Quiz" "step second_question_page = Quiz"
    "currentQ answered_page = 0" "currentQ second_question_page = 1"
    by (simp_all add: demo_pages demo_defs page_defs second_question_page_def)
  have qz: "quiz answered_page = Some quiz_two" "quiz second_question_page = Some quiz_two"
    by (simp_all add: demo_pages demo_defs page_defs second_question_page_def)
  have cq: "current_question quiz_two answered_page = Some question_3"
    "current_question quiz_two second_question_page = Some question_4"
    by (simp_all add: demo_pages demo_defs page_defs second_question_page_def)
  have gd: "\<not> isLast quiz_two answered_page" "isLast quiz_two second_question_page"
    "truthy (map_of (answers answered_page) (q_id question_3))"
    by (simp_all add: demo_pages demo_defs page_defs second_question_page_def)
  have up: "answered_page\<lparr>currentQ := currentQ answered_page + 1\<rparr> = second_question_page"
    "second_question_page\<lparr>currentQ := currentQ second_question_page - 1\<rparr> = answered_page"
    by (simp_all add: demo_pages demo_defs page_defs second_question_page_def)
  from currentQ_stays_in_range [OF reachable_answered st(1), of 75000] qz(1) cq(1) gd st up
  have n1: "fire 75000 ClickNext answered_page = Some second_question_page"
    and p1: "fire 75000 ClickPrevious answered_page = None"
    by auto
  from reachable_answered n1 have r2: "reachable second_question_page" by (rule reachable.fired)
  from currentQ_stays_in_range [OF r2 st(2), of 76000] qz(2) cq(2) gd st up
  have p2: "fire 76000 ClickPrevious second_question_page = Some answered_page"
    and n2: "fire 76000 ClickNext second_question_page = None"
    by auto
  from reachable_answered r2 st n1 p1 p2 n2 show ?thesis by simp
qed

section \<open>New quiz (C10)\<close>

text \<open>
  Claim C10: the new-quiz button exists in the result step only; it sets the step to
  setup and clears the quiz and the result, and leaves every other cell as it is, among
  them \<^verbatim>\<open>answers\<close>, the subject and the chapter. In the setup step every event leaves
  \<^verbatim>\<open>answers\<close> unchanged, except the generation that resolves with questions, which starts
  the quiz with empty \<^verbatim>\<open>answers\<close>.
\<close>

theorem newQuiz_keeps_answers:
  "(fire now ClickNewQuiz s = Some s' \<longrightarrow>
      step s = Result \<and> step s' = Setup \<and> quiz s' = None \<and> result s' = None
      \<and> answers s' = answers s \<and> subject s' = subject s \<and> chapterId s' = chapterId s
      \<and> currentQ s' = currentQ s \<and> student s' = student s \<and> loading s' = loading s
      \<and> error s' = error s \<and> startTime s' = startTime s \<and> inflight s' = inflight s)
   \<and> (step p = Setup \<and> fire t e p = Some p' \<longrightarrow>
        answers p' = answers p
        \<or> (\<exists>qd. e = GenerateSettled (Resolved (Some qd)) \<and> questions qd \<noteq> []
              \<and> step p' = Quiz \<and> answers p' = []))"
proof -
  have A: "fire now ClickNewQuiz s = Some s' \<longrightarrow>
      step s = Result \<and> step s' = Setup \<and> quiz s' = None \<and> result s' = None
      \<and> answers s' = answers s \<and> subject s' = subject s \<and> chapterId s' = chapterId s
      \<and> currentQ s' = currentQ s \<and> student s' = student s \<and> loading s' = loading s
      \<and> error s' = error s \<and> startTime s' = startTime s \<and> inflight s' = inflight s"
    by (cases "step s")
       (auto simp: fire_def click_def setup_view_def quiz_view_def result_view_def newQuiz_def
             split: option.splits if_splits)
  have B: "step p = Setup \<and> fire t e p = Some p' \<longrightarrow>
        answers p' = answers p
        \<or> (\<exists>qd. e = GenerateSettled (Resolved (Some qd)) \<and> questions qd \<noteq> []
              \<and> step p' = Quiz \<and> answers p' = [])"
  proof (rule impI)
    assume a: "step p = Setup \<and> fire t e p = Some p'"
    show "answers p' = answers p
        \<or> (\<exists>qd. e = GenerateSettled (Resolved (Some qd)) \<and> questions qd \<noteq> []
              \<and> step p' = Quiz \<and> answers p' = [])"
    proof (cases e)
      case (GenerateSettled oc)
      with a show ?thesis
        by (cases oc)
           (auto simp: fire_def handleStartQuiz_settle_def no_questions_def
                 split: option.splits request.splits if_splits)
    next
      case (SubmitSettled oc)
      with a show ?thesis
        by (cases oc)
           (auto simp: fire_def handleSubmitQuiz_settle_def split: option.splits request.splits)
    qed (use a in \<open>auto simp: fire_def click_def setup_view_def handleStartQuiz_begin_def
          split: option.splits if_splits\<close>)
  qed
  show ?thesis by (rule conjI [OF A B])
qed

text \<open>
  Witness for C10: after the result of the two-question quiz, the new-quiz button leaves
  both recorded answers in place, and they are still there after another chapter is
  picked.
\<close>

theorem newQuiz_keeps_answers_witness:
  "fire 95000 ClickNewQuiz result_page = Some (newQuiz result_page)
   \<and> step (newQuiz result_page) = Setup
   \<and> quiz (newQuiz result_page) = None
   \<and> answers (newQuiz result_page) = [(3, ''D''), (4, ''A'')]
   \<and> subject (newQuiz result_page) = ''math''
   \<and> fire 96000 (ClickChapter ''ch2_quadratics'') (newQuiz result_page)
       = Some ((newQuiz result_page)\<lparr>chapterId := ''ch2_quadratics''\<rparr>)
   \<and> answers ((newQuiz result_page)\<lparr>chapterId := ''ch2_quadratics''\<rparr>) = [(3, ''D''), (4, ''A'')]"
proof -
  have f1: "fire 95000 ClickNewQuiz result_page = Some (newQuiz result_page)"
    by (simp add: page_defs demo_defs demo_pages)
  have f2: "fire 96000 (ClickChapter ''ch2_quadratics'') (newQuiz result_page)
       = Some ((newQuiz result_page)\<lparr>chapterId := ''ch2_quadratics''\<rparr>)"
    by (simp add: page_defs demo_defs demo_pages)
  have a: "answers result_page = [(3, ''D''), (4, ''A'')]" "subject result_page = ''math''"
    by (simp_all add: demo_pages demo_defs page_defs)
  from newQuiz_keeps_answers [of 95000 result_page "newQuiz result_page"
      "newQuiz result_page" 96000 "ClickChapter ''ch2_quadratics''"
      "(newQuiz result_page)\<lparr>chapterId := ''ch2_quadratics''\<rparr>"] f1 f2 a
  show ?thesis by simp
qed

end